theory Spec2Isabelle
  imports Complex_Main "HOL-Library.Word" "HOL-Library.Log_Nat"
begin

section \<open>Library values used by the program: math/big and float64\<close>

text \<open>
  The program computes prices with \<^verbatim>\<open>*big.Float\<close> (a binary floating-point number with a
  mantissa of \<open>prec\<close> bits, rounded to nearest-even after every operation) and compares
  logarithms obtained through \<^verbatim>\<open>float64\<close>.  Both are modelled by integer arithmetic on
  mantissa and exponent.  A finite \<open>Float\<close> with mantissa \<open>m\<close> (of \<open>floorlog 2 m\<close> bits)
  and exponent \<open>e\<close> denotes \<open>m * 2 ^ (e - floorlog 2 m)\<close>, that is \<open>0.1xxx\<^sub>2 * 2 ^ e\<close>, as in
  math/big.  The rounding mode is always the default one (to nearest, ties to even): the
  program never changes it.  The accuracy field of a Float is never read and is left out.
\<close>

datatype error = ErrNaN string
  \<comment> \<open>the panic value of math/big; nothing in the program recovers from it\<close>

definition bindE :: "'e + 'a \<Rightarrow> ('a \<Rightarrow> 'e + 'b) \<Rightarrow> 'e + 'b" where
  "bindE m f = (case m of Inl e \<Rightarrow> Inl e | Inr a \<Rightarrow> f a)"

definition BitLen :: "int \<Rightarrow> nat" where
  \<comment> \<open>\<^verbatim>\<open>(*big.Int).BitLen\<close>: length of the absolute value in bits\<close>
  "BitLen x = floorlog 2 (nat \<bar>x\<bar>)"

definition Exp :: "int \<Rightarrow> int \<Rightarrow> int" where
  \<comment> \<open>\<^verbatim>\<open>(*big.Int).Exp(x, y, nil)\<close>: \<open>x ** y\<close>, "unless y <= 0 then z = 1"\<close>
  "Exp x y = (if y \<le> 0 then 1 else x ^ nat y)"

datatype form = form_zero | form_finite | form_inf

record Float =
  prec :: nat
  neg :: bool
  form :: form
  mant :: nat
  expn :: int

definition MaxExp :: int where "MaxExp = 2147483647"
definition MinExp :: int where "MinExp = - 2147483648"

definition mkzero :: "nat \<Rightarrow> bool \<Rightarrow> Float" where
  "mkzero p ng = \<lparr>prec = p, neg = ng, form = form_zero, mant = 0, expn = 0\<rparr>"

definition mkinf :: "nat \<Rightarrow> bool \<Rightarrow> Float" where
  "mkinf p ng = \<lparr>prec = p, neg = ng, form = form_inf, mant = 0, expn = 0\<rparr>"

definition mkfinite :: "nat \<Rightarrow> bool \<Rightarrow> nat \<Rightarrow> int \<Rightarrow> Float" where
  "mkfinite p ng m e = \<lparr>prec = p, neg = ng, form = form_finite, mant = m, expn = e\<rparr>"

definition Float_round :: "Float \<Rightarrow> bool \<Rightarrow> Float" where
  \<comment> \<open>\<^verbatim>\<open>(*Float).round(sbit)\<close>: cut the mantissa to \<open>prec\<close> bits.  \<open>rbit\<close> is the first bit
      cut off, the sticky bit says whether anything below it is set (\<open>sbit\<close>: or was lost
      before).  A mantissa that overflows to \<open>2 ^ prec\<close> is halved and bumps the
      exponent.\<close>
  "Float_round z sbit =
     (if form z \<noteq> form_finite then z
      else let l = floorlog 2 (mant z); p = prec z in
        if l \<le> p then z
        else let r = l - p - 1;
                 rbit = odd (mant z div 2 ^ r);
                 sb = (sbit \<or> mant z mod 2 ^ r \<noteq> 0);
                 q = mant z div 2 ^ (r + 1);
                 inc = (rbit \<and> (sb \<or> odd q))
             in if inc then
                  (if q + 1 = 2 ^ p then
                     (if expn z \<ge> MaxExp then mkinf p (neg z)
                      else z\<lparr>mant := 2 ^ (p - 1), expn := expn z + 1\<rparr>)
                   else z\<lparr>mant := q + 1\<rparr>)
                else z\<lparr>mant := q\<rparr>)"

definition setExpAndRound :: "nat \<Rightarrow> bool \<Rightarrow> nat \<Rightarrow> int \<Rightarrow> bool \<Rightarrow> Float" where
  "setExpAndRound p ng m e sbit =
     (if e < MinExp then mkzero p ng
      else if e > MaxExp then mkinf p ng
      else Float_round (mkfinite p ng m e) sbit)"

definition SetInt :: "int \<Rightarrow> Float" where
  \<comment> \<open>\<^verbatim>\<open>new(big.Float).SetInt(x)\<close>: precision \<open>max(x.BitLen(), 64)\<close>, value exact\<close>
  "SetInt x =
     (let bits = BitLen x mod 2 ^ 32; p = max bits 64 in
      if x = 0 then mkzero p (x < 0)
      else setExpAndRound p (x < 0) (nat \<bar>x\<bar>) (int bits) False)"

definition umul :: "nat \<Rightarrow> bool \<Rightarrow> Float \<Rightarrow> Float \<Rightarrow> Float" where
  "umul p ng x y =
     (let m = mant x * mant y;
          e = expn x + expn y
              - (int (floorlog 2 (mant x)) + int (floorlog 2 (mant y)) - int (floorlog 2 m))
      in setExpAndRound p ng m e False)"

definition Mul :: "Float \<Rightarrow> Float \<Rightarrow> error + Float" where
  \<comment> \<open>\<^verbatim>\<open>new(big.Float).Mul(x, y)\<close>: the rounded product, precision the larger of the two\<close>
  "Mul x y =
     (let p = max (prec x) (prec y); ng = (neg x \<noteq> neg y) in
      if form x = form_finite \<and> form y = form_finite then Inr (umul p ng x y)
      else if form x = form_zero \<and> form y = form_inf \<or> form x = form_inf \<and> form y = form_zero
        then Inl (ErrNaN ''multiplication of zero with infinity'')
      else if form x = form_inf \<or> form y = form_inf then Inr (mkinf p ng)
      else Inr (mkzero p ng))"

definition uquo :: "nat \<Rightarrow> bool \<Rightarrow> Float \<Rightarrow> Float \<Rightarrow> Float" where
  \<comment> \<open>the dividend is padded so that the integer quotient has at least \<open>p + 1\<close> bits; a
      remainder sets the sticky bit\<close>
  "uquo p ng x y =
     (let lx = floorlog 2 (mant x); ly = floorlog 2 (mant y);
          d = nat (int p + 1 + int ly - int lx);
          xadj = mant x * 2 ^ d;
          q = xadj div mant y;
          r = xadj mod mant y;
          e = (expn x - int lx) - (expn y - int ly) - int d + int (floorlog 2 q)
      in setExpAndRound p ng q e (r \<noteq> 0))"

definition Quo :: "Float \<Rightarrow> Float \<Rightarrow> error + Float" where
  \<comment> \<open>\<^verbatim>\<open>new(big.Float).Quo(x, y)\<close>: the rounded quotient\<close>
  "Quo x y =
     (let p = max (prec x) (prec y); ng = (neg x \<noteq> neg y) in
      if form x = form_finite \<and> form y = form_finite then Inr (uquo p ng x y)
      else if form x = form_zero \<and> form y = form_zero \<or> form x = form_inf \<and> form y = form_inf
        then Inl (ErrNaN ''division of zero by zero or infinity by infinity'')
      else if form x = form_zero \<or> form y = form_inf then Inr (mkzero p ng)
      else Inr (mkinf p ng))"

definition Neg :: "Float \<Rightarrow> Float" where
  \<comment> \<open>\<^verbatim>\<open>new(big.Float).Neg(x)\<close>: a copy of \<open>x\<close> with the sign flipped\<close>
  "Neg x = x\<lparr>neg := \<not> neg x\<rparr>"

definition ord :: "Float \<Rightarrow> int" where
  "ord x = (case form x of
              form_finite \<Rightarrow> (if neg x then - 1 else 1)
            | form_zero \<Rightarrow> 0
            | form_inf \<Rightarrow> (if neg x then - 2 else 2))"

definition ucmp :: "Float \<Rightarrow> Float \<Rightarrow> int" where
  \<comment> \<open>compares exponents, then the mantissas aligned at their most significant bit\<close>
  "ucmp x y =
     (if expn x < expn y then - 1
      else if expn x > expn y then 1
      else let lx = floorlog 2 (mant x); ly = floorlog 2 (mant y);
               a = mant x * 2 ^ (max lx ly - lx);
               b = mant y * 2 ^ (max lx ly - ly)
           in if a < b then - 1 else if a > b then 1 else 0)"

definition Cmp :: "Float \<Rightarrow> Float \<Rightarrow> int" where
  "Cmp x y =
     (let mx = ord x; my = ord y in
      if mx < my then - 1
      else if mx > my then 1
      else if mx = - 1 then ucmp y x
      else if mx = 1 then ucmp x y
      else 0)"

datatype float64 = NaN64 | Inf64 bool | Zero64 bool | Num64 bool nat int
  \<comment> \<open>\<open>Inf64 s\<close> and \<open>Zero64 s\<close> carry the sign bit; \<open>Num64 s m e\<close> is the nonzero finite
      number \<open>(-1)\<^sup>s * m * 2 ^ e\<close> with the 53-bit mantissa \<open>2 ^ 52 \<le> m < 2 ^ 53\<close> of a normal
      number, or \<open>m < 2 ^ 52\<close> and \<open>e = -1074\<close> for a denormal one\<close>

definition Set_prec :: "nat \<Rightarrow> Float \<Rightarrow> Float" where
  \<comment> \<open>\<^verbatim>\<open>r.prec = p; r.Set(x)\<close>: rounds only if the precision shrinks\<close>
  "Set_prec p x = (if p < prec x then Float_round (x\<lparr>prec := p\<rparr>) False else x\<lparr>prec := p\<rparr>)"

definition Float64 :: "Float \<Rightarrow> float64" where
  \<comment> \<open>\<^verbatim>\<open>(*Float).Float64()\<close>: the nearest float64 (the accuracy result is discarded by
      the caller)\<close>
  "Float64 x =
     (case form x of
        form_zero \<Rightarrow> Zero64 (neg x)
      | form_inf \<Rightarrow> Inf64 (neg x)
      | form_finite \<Rightarrow>
          (let e = expn x - 1;
               p = (if e < - 1022 then 53 + 1022 + e else 53)
           in if e < - 1022 \<and> (p < 0 \<or> p = 0 \<and> mant x = 2 ^ (floorlog 2 (mant x) - 1))
                then Zero64 (neg x)
              else if e < - 1022 \<and> p = 0 then Num64 (neg x) 1 (- 1074)
              else let r = Set_prec (nat p) x; e' = expn r - 1 in
                if form r = form_inf \<or> e' > 1023 then Inf64 (neg x)
                else if e' < - 1022
                  then Num64 (neg x) (mant r * 2 ^ (nat (53 + 1022 + e') - floorlog 2 (mant r))) (- 1074)
                  else Num64 (neg x) (mant r * 2 ^ (53 - floorlog 2 (mant r))) (e' - 52)))"

definition SetFloat64 :: "float64 \<Rightarrow> error + Float" where
  \<comment> \<open>\<^verbatim>\<open>new(big.Float).SetFloat64(x)\<close>: precision 53, value exact; panics on NaN\<close>
  "SetFloat64 x =
     (case x of
        NaN64 \<Rightarrow> Inl (ErrNaN ''Float.SetFloat64(NaN)'')
      | Zero64 s \<Rightarrow> Inr (mkzero 53 s)
      | Inf64 s \<Rightarrow> Inr (mkinf 53 s)
      | Num64 s m e \<Rightarrow> Inr (mkfinite 53 s m (e + int (floorlog 2 m))))"

definition NewFloat :: "float64 \<Rightarrow> error + Float" where
  "NewFloat x = (if x = NaN64 then Inl (ErrNaN ''NewFloat(NaN)'') else SetFloat64 x)"

definition one64 :: float64 where
  \<comment> \<open>the float64 constant 1\<close>
  "one64 = Num64 False (2 ^ 52) (- 52)"

type_synonym lnfun = "nat \<Rightarrow> int \<Rightarrow> bool \<times> nat \<times> int"
  \<comment> \<open>what \<^verbatim>\<open>math.Log\<close> returns for the positive finite float64 \<open>m * 2 ^ e\<close>: sign, mantissa
      and exponent of a finite float64, mantissa 0 for the result 0.  The function is
      part of the Go library and is a parameter of the model.\<close>

definition math_Log :: "lnfun \<Rightarrow> float64 \<Rightarrow> float64" where
  \<comment> \<open>\<^verbatim>\<open>math.Log\<close> with its special cases: Log(+Inf) = +Inf, Log(0) = -Inf,
      Log(x < 0) = NaN, Log(NaN) = NaN\<close>
  "math_Log lnf x =
     (case x of
        NaN64 \<Rightarrow> NaN64
      | Inf64 s \<Rightarrow> (if s then NaN64 else Inf64 False)
      | Zero64 s \<Rightarrow> Inf64 True
      | Num64 s m e \<Rightarrow>
          (if s then NaN64
           else case lnf m e of (ng, m', e') \<Rightarrow> if m' = 0 then Zero64 ng else Num64 ng m' e'))"

section \<open>The program's data (main.go)\<close>

record PoolConfig =
  Address :: string
  Token0 :: string
  Token1 :: string
  Token0Addr :: "160 word"
  Token1Addr :: "160 word"
  Decimals0 :: "64 word"
  Decimals1 :: "64 word"
  Type :: string

text \<open>
  \<^verbatim>\<open>Decimals0\<close> and \<^verbatim>\<open>Decimals1\<close> have the Go type \<^verbatim>\<open>int\<close>, 64 bits wide on the platforms
  the program is built for: their difference wraps around, and is read as a signed number.
\<close>

record PriceInfo =
  DexType :: string
  PoolAddr :: string
  Price :: Float
  LogPrice :: Float
  UpdatedAt :: int

record BestPriceInfo =
  Forward :: "PriceInfo option"
  Reverse :: "PriceInfo option"
  BestUpdatedAt :: int

datatype arg = ArgStr string | ArgFloat Float | ArgInt int | ArgErr string

datatype logline = Printf string "arg list"
  \<comment> \<open>a call of \<^verbatim>\<open>logger.Printf\<close>: format and arguments, not rendered\<close>

record state =
  priceCache :: "string \<rightharpoonup> PriceInfo list"
  bestPriceCache :: "string \<rightharpoonup> BestPriceInfo"
  logged :: "logline list"

record clock =
  tForward :: int
  tReverse :: int
  tBestForward :: int
  tBestReverse :: int

text \<open>
  \<open>clock\<close> holds what \<^verbatim>\<open>time.Now().Unix()\<close> returns at the four places where
  \<^verbatim>\<open>updatePriceCache\<close> reads the time.
\<close>

record SwapEvent =
  Amount0 :: int
  Amount1 :: int
  SqrtPriceX96 :: int
  Liquidity :: int
  Tick :: int

record TokenExchangeEvent =
  Buyer :: "160 word"
  SoldID :: int
  TokensSold :: int
  BoughtID :: int
  TokensBought :: int

record types_Log =
  Data :: "8 word list"

definition init_state :: state where
  "init_state = \<lparr>priceCache = Map.empty, bestPriceCache = Map.empty, logged = []\<rparr>"

section \<open>updatePriceCache\<close>

definition bucket :: "(string \<rightharpoonup> PriceInfo list) \<Rightarrow> string \<Rightarrow> PriceInfo list" where
  \<comment> \<open>\<^verbatim>\<open>priceCache[key]\<close>, the empty slice when the key is absent\<close>
  "bucket m k = (case m k of None \<Rightarrow> [] | Some xs \<Rightarrow> xs)"

fun removePool :: "string \<Rightarrow> PriceInfo list \<Rightarrow> PriceInfo list" where
  \<comment> \<open>the loop that deletes the first record of this pool and breaks\<close>
  "removePool a [] = []"
| "removePool a (x # xs) = (if PoolAddr x = a then xs else x # removePool a xs)"

definition bestEntry :: "(string \<rightharpoonup> BestPriceInfo) \<Rightarrow> string \<Rightarrow> BestPriceInfo" where
  \<comment> \<open>\<^verbatim>\<open>bestPriceCache[key]\<close> after an absent key got \<^verbatim>\<open>&BestPriceInfo{}\<close>\<close>
  "bestEntry m k =
     (case m k of None \<Rightarrow> \<lparr>Forward = None, Reverse = None, BestUpdatedAt = 0\<rparr> | Some b \<Rightarrow> b)"

definition pairKey :: "string \<Rightarrow> string \<Rightarrow> string" where
  \<comment> \<open>\<^verbatim>\<open>fmt.Sprintf("%s_%s", a, b)\<close>\<close>
  "pairKey a b = a @ ''_'' @ b"

definition updatePriceCache ::
  "lnfun \<Rightarrow> clock \<Rightarrow> PoolConfig \<Rightarrow> Float \<Rightarrow> string \<Rightarrow> state \<Rightarrow> error + state" where
  "updatePriceCache lnf clk pool price dexType st =
     (let forwardPair = pairKey (Token0 pool) (Token1 pool);
          reversePair = pairKey (Token1 pool) (Token0 pool);
          price64 = Float64 price
      in bindE (SetFloat64 (math_Log lnf price64)) (\<lambda>logPrice.
         let priceInfo = \<lparr>DexType = dexType, PoolAddr = Address pool, Price = price,
                          LogPrice = logPrice, UpdatedAt = tForward clk\<rparr>;
             pc1 = (priceCache st)(forwardPair \<mapsto>
                      removePool (Address pool) (bucket (priceCache st) forwardPair) @ [priceInfo])
         in bindE (NewFloat one64) (\<lambda>one.
            bindE (Quo one price) (\<lambda>reversePrice.
            let reverseLogPrice = Neg logPrice;
                reversePriceInfo = \<lparr>DexType = dexType, PoolAddr = Address pool,
                                    Price = reversePrice, LogPrice = reverseLogPrice,
                                    UpdatedAt = tReverse clk\<rparr>;
                pc2 = pc1(reversePair \<mapsto>
                        removePool (Address pool) (bucket pc1 reversePair) @ [reversePriceInfo]);
                bestForward = bestEntry (bestPriceCache st) forwardPair;
                bestForward' =
                  (if (case Forward bestForward of None \<Rightarrow> True
                       | Some b \<Rightarrow> Cmp logPrice (LogPrice b) > 0)
                   then bestForward\<lparr>Forward := Some priceInfo, BestUpdatedAt := tBestForward clk\<rparr>
                   else bestForward);
                bc1 = (bestPriceCache st)(forwardPair \<mapsto> bestForward');
                bestReverse = bestEntry bc1 reversePair;
                bestReverse' =
                  (if (case Reverse bestReverse of None \<Rightarrow> True
                       | Some b \<Rightarrow> Cmp reverseLogPrice (LogPrice b) > 0)
                   then bestReverse\<lparr>Reverse := Some reversePriceInfo, BestUpdatedAt := tBestReverse clk\<rparr>
                   else bestReverse);
                bc2 = bc1(reversePair \<mapsto> bestReverse')
            in Inr (st\<lparr>priceCache := pc2, bestPriceCache := bc2\<rparr>)))))"

section \<open>The two event handlers\<close>

definition uniswapPrice :: "SwapEvent \<Rightarrow> PoolConfig \<Rightarrow> error + Float" where
  \<comment> \<open>\<^verbatim>\<open>handleUniswapEvent\<close>, from "Calculate price using SqrtPriceX96" to the end of
      "Adjust for token decimals"\<close>
  "uniswapPrice event pool =
     (let sqrtPrice = SetInt (SqrtPriceX96 event);
          divisor = SetInt (Exp 2 96)
      in bindE (Quo sqrtPrice divisor) (\<lambda>sqrtPriceFloat.
         bindE (Mul sqrtPriceFloat sqrtPriceFloat) (\<lambda>price.
         let decimalsDiff = Decimals0 pool - Decimals1 pool in
         if 0 <s decimalsDiff then
           (let adjustment = SetInt (Exp 10 (sint decimalsDiff)) in Mul price adjustment)
         else if decimalsDiff <s 0 then
           (let adjustment = SetInt (Exp 10 (sint (- decimalsDiff))) in Quo price adjustment)
         else Inr price)))"

definition handleUniswapEvent ::
  "(8 word list \<Rightarrow> string + SwapEvent) \<Rightarrow> lnfun \<Rightarrow> clock \<Rightarrow> types_Log \<Rightarrow> PoolConfig \<Rightarrow> state
     \<Rightarrow> error + state" where
  \<comment> \<open>the first argument is \<^verbatim>\<open>uniswapABI.UnpackIntoInterface(&event, "Swap", data)\<close> of
      go-ethereum, \<open>Inl\<close> the text of its error\<close>
  "handleUniswapEvent unpack lnf clk vLog pool st =
     (case unpack (Data vLog) of
        Inl err \<Rightarrow>
          Inr (st\<lparr>logged := logged st @ [Printf ''Failed to unpack Uniswap event: %v'' [ArgErr err]]\<rparr>)
      | Inr event \<Rightarrow>
          bindE (uniswapPrice event pool) (\<lambda>price.
          bindE (updatePriceCache lnf clk pool price ''uniswap'' st) (\<lambda>st'.
          Inr (st'\<lparr>logged := logged st' @
                 [Printf ''Uniswap %s_%s Price Update - %s/%s: %f (Tick: %d, Direction: %s -> %s)''
                    [ArgStr (Token0 pool), ArgStr (Token1 pool),
                     ArgStr (Token0 pool), ArgStr (Token1 pool),
                     ArgFloat price, ArgInt (Tick event),
                     ArgStr (Token0 pool), ArgStr (Token1 pool)]]\<rparr>))))"

definition curvePrice :: "TokenExchangeEvent \<Rightarrow> PoolConfig \<Rightarrow> error + Float" where
  \<comment> \<open>\<^verbatim>\<open>handleCurveEvent\<close>, from "Calculate price" to the end of "Adjust for token
      decimals"\<close>
  "curvePrice event pool =
     bindE (Quo (SetInt (TokensSold event)) (SetInt (TokensBought event))) (\<lambda>price.
       let decimalsDiff = Decimals1 pool - Decimals0 pool in
       if decimalsDiff \<noteq> 0 then
         (let adjustment = SetInt (Exp 10 (sint decimalsDiff)) in Mul price adjustment)
       else Inr price)"

definition handleCurveEvent ::
  "(8 word list \<Rightarrow> string + TokenExchangeEvent) \<Rightarrow> lnfun \<Rightarrow> clock \<Rightarrow> types_Log \<Rightarrow> PoolConfig
     \<Rightarrow> state \<Rightarrow> error + state" where
  "handleCurveEvent unpack lnf clk vLog pool st =
     (case unpack (Data vLog) of
        Inl err \<Rightarrow>
          Inr (st\<lparr>logged := logged st @ [Printf ''Failed to unpack Curve event: %v'' [ArgErr err]]\<rparr>)
      | Inr event \<Rightarrow>
          bindE (curvePrice event pool) (\<lambda>price.
          bindE (updatePriceCache lnf clk pool price ''curve'' st) (\<lambda>st'.
          Inr (st'\<lparr>logged := logged st' @
                 [Printf ''Curve %s_%s Price Update - %s/%s: %f (Sold ID: %d, Bought ID: %d, Direction: %s -> %s)''
                    [ArgStr (Token0 pool), ArgStr (Token1 pool),
                     ArgStr (Token0 pool), ArgStr (Token1 pool),
                     ArgFloat price, ArgInt (SoldID event), ArgInt (BoughtID event),
                     ArgStr (Token0 pool), ArgStr (Token1 pool)]]\<rparr>))))"

section \<open>Reading the caches\<close>

definition one53 :: Float where
  \<comment> \<open>the value of \<^verbatim>\<open>big.NewFloat(1)\<close>\<close>
  "one53 = mkfinite 53 False (2 ^ 52) 1"

definition fwdRec :: "string \<Rightarrow> PoolConfig \<Rightarrow> Float \<Rightarrow> Float \<Rightarrow> clock \<Rightarrow> PriceInfo" where
  \<comment> \<open>\<^verbatim>\<open>priceInfo\<close>, the record of the forward direction\<close>
  "fwdRec dexType pool price logPrice clk =
     \<lparr>DexType = dexType, PoolAddr = Address pool, Price = price, LogPrice = logPrice,
      UpdatedAt = tForward clk\<rparr>"

definition revRec :: "string \<Rightarrow> PoolConfig \<Rightarrow> Float \<Rightarrow> Float \<Rightarrow> clock \<Rightarrow> PriceInfo" where
  \<comment> \<open>\<^verbatim>\<open>reversePriceInfo\<close>, the record of the reverse direction, from the reverse price and
      the forward logarithm\<close>
  "revRec dexType pool reversePrice logPrice clk =
     \<lparr>DexType = dexType, PoolAddr = Address pool, Price = reversePrice, LogPrice = Neg logPrice,
      UpdatedAt = tReverse clk\<rparr>"

definition put :: "string \<Rightarrow> PriceInfo \<Rightarrow> string \<Rightarrow> (string \<rightharpoonup> PriceInfo list)
    \<Rightarrow> (string \<rightharpoonup> PriceInfo list)" where
  "put a r k pc = pc(k \<mapsto> removePool a (bucket pc k) @ [r])"

definition better :: "Float \<Rightarrow> PriceInfo option \<Rightarrow> bool" where
  \<comment> \<open>the test that lets a new record replace the held best one\<close>
  "better lp old = (case old of None \<Rightarrow> True | Some b \<Rightarrow> Cmp lp (LogPrice b) > 0)"

definition uniquePools :: "state \<Rightarrow> bool" where
  "uniquePools st = (\<forall>k. distinct (map PoolAddr (bucket (priceCache st) k)))"

inductive reachable :: "lnfun \<Rightarrow> state \<Rightarrow> bool" for lnf :: lnfun where
  reach_init: "reachable lnf init_state"
| reach_update: "reachable lnf st \<Longrightarrow> updatePriceCache lnf clk pool price dexType st = Inr st'
    \<Longrightarrow> reachable lnf st'"
| reach_log: "reachable lnf st \<Longrightarrow> reachable lnf (st\<lparr>logged := logged st @ [l]\<rparr>)"

section \<open>The real number a Float stands for\<close>

text \<open>
  \<open>mag x\<close> is the absolute value of a finite \<open>x\<close>, \<open>valF x\<close> its value (0 for a zero; an
  infinity has no value and is given 0).  \<open>bnd x A B\<close> says that \<open>x\<close> is finite, not zero,
  and \<open>2 ^ A \<le> |x| < 2 ^ B\<close>; \<open>rel a b e\<close> that \<open>a\<close> is \<open>b\<close> up to the relative error \<open>e\<close>.
\<close>

definition mag :: "Float \<Rightarrow> real" where
  "mag x = real (mant x) * 2 powi (expn x - int (floorlog 2 (mant x)))"

definition valF :: "Float \<Rightarrow> real" where
  "valF x = (if form x = form_finite then (if neg x then - mag x else mag x) else 0)"

definition fin :: "Float \<Rightarrow> bool" where
  "fin x \<longleftrightarrow> form x = form_finite \<and> 0 < mant x"

definition bnd :: "Float \<Rightarrow> int \<Rightarrow> int \<Rightarrow> bool" where
  "bnd x A B \<longleftrightarrow> fin x \<and> 2 powi A \<le> mag x \<and> mag x < 2 powi B"

definition rel :: "real \<Rightarrow> real \<Rightarrow> real \<Rightarrow> bool" where
  "rel a b e \<longleftrightarrow> \<bar>a - b\<bar> \<le> b * e"

section \<open>Sample data for the examples\<close>

definition ln_sample :: lnfun where
  \<comment> \<open>\<^verbatim>\<open>math.Log\<close> at the float64 values 1, 4 and 16: 0, 2 ln 2 and 4 ln 2 rounded to
      float64.  No other point is used by the examples.\<close>
  "ln_sample m e =
     (if m = 2 ^ 52 \<and> e = - 50 then (False, 6243314768165359, - 52)
      else if m = 2 ^ 52 \<and> e = - 48 then (False, 6243314768165359, - 51)
      else (False, 0, 0))"

definition clock0 :: clock where
  "clock0 = \<lparr>tForward = 1700000000, tReverse = 1700000000, tBestForward = 1700000000,
              tBestReverse = 1700000000\<rparr>"

definition pool1 :: PoolConfig where
  "pool1 = \<lparr>Address = ''0xP1'', Token0 = ''A'', Token1 = ''B'', Token0Addr = 10, Token1Addr = 11,
            Decimals0 = 18, Decimals1 = 18, Type = ''uniswap''\<rparr>"

definition pool2 :: PoolConfig where
  "pool2 = \<lparr>Address = ''0xP2'', Token0 = ''A'', Token1 = ''B'', Token0Addr = 10, Token1Addr = 11,
            Decimals0 = 18, Decimals1 = 18, Type = ''uniswap''\<rparr>"

definition pool_curve :: PoolConfig where
  "pool_curve = \<lparr>Address = ''0xC1'', Token0 = ''DAI'', Token1 = ''USDC'', Token0Addr = 12,
                 Token1Addr = 13, Decimals0 = 18, Decimals1 = 6, Type = ''curve''\<rparr>"

definition unpack_none :: "8 word list \<Rightarrow> string + 'a" where
  \<comment> \<open>a decoder that rejects every payload\<close>
  "unpack_none d = Inl ''abi: cannot unmarshal''"

definition exchange :: "int \<Rightarrow> int \<Rightarrow> int \<Rightarrow> int \<Rightarrow> TokenExchangeEvent" where
  "exchange i sold j bought =
     \<lparr>Buyer = 0, SoldID = i, TokensSold = sold, BoughtID = j, TokensBought = bought\<rparr>"

definition swap :: "int \<Rightarrow> SwapEvent" where
  \<comment> \<open>a decoded Swap event with the given sqrtPriceX96\<close>
  "swap s = \<lparr>Amount0 = 0, Amount1 = 0, SqrtPriceX96 = s, Liquidity = 0, Tick = 0\<rparr>"

definition price16 :: Float where
  \<comment> \<open>the prices 16, 4 and 1 as \<open>uniswapPrice\<close> decodes them from \<open>2 ^ 98\<close>, \<open>2 ^ 97\<close>
      and \<open>2 ^ 96\<close>\<close>
  "price16 = mkfinite 99 False (2 ^ 98) 5"

definition price4 :: Float where
  "price4 = mkfinite 98 False (2 ^ 97) 3"

definition price1 :: Float where
  "price1 = mkfinite 97 False (2 ^ 96) 1"

definition log16 :: Float where
  \<comment> \<open>4 ln 2, 2 ln 2 and 0 as float64 values\<close>
  "log16 = mkfinite 53 False 6243314768165359 2"

definition log4 :: Float where
  "log4 = mkfinite 53 False 6243314768165359 1"

definition log1 :: Float where
  "log1 = mkzero 53 False"

definition p1_16 :: PriceInfo where
  "p1_16 = fwdRec ''uniswap'' pool1 price16 log16 clock0"

definition p1_16r :: PriceInfo where
  "p1_16r = revRec ''uniswap'' pool1 (mkfinite 99 False (2 ^ 98) (- 3)) log16 clock0"

definition p2_4 :: PriceInfo where
  "p2_4 = fwdRec ''uniswap'' pool2 price4 log4 clock0"

definition p2_4r :: PriceInfo where
  "p2_4r = revRec ''uniswap'' pool2 (mkfinite 98 False (2 ^ 97) (- 1)) log4 clock0"

definition p1_1 :: PriceInfo where
  "p1_1 = fwdRec ''uniswap'' pool1 price1 log1 clock0"

definition p1_1r :: PriceInfo where
  "p1_1r = revRec ''uniswap'' pool1 (mkfinite 97 False (2 ^ 96) 1) log1 clock0"

definition stale1 :: state where
  \<comment> \<open>after pool 1 reported the price 16\<close>
  "stale1 =
     \<lparr>priceCache = [''A_B'' \<mapsto> [p1_16], ''B_A'' \<mapsto> [p1_16r]],
      bestPriceCache =
        [''A_B'' \<mapsto> \<lparr>Forward = Some p1_16, Reverse = None, BestUpdatedAt = 1700000000\<rparr>,
         ''B_A'' \<mapsto> \<lparr>Forward = None, Reverse = Some p1_16r, BestUpdatedAt = 1700000000\<rparr>],
      logged = []\<rparr>"

definition stale2 :: state where
  \<comment> \<open>after pool 2 reported the price 4\<close>
  "stale2 =
     \<lparr>priceCache = [''A_B'' \<mapsto> [p1_16, p2_4], ''B_A'' \<mapsto> [p1_16r, p2_4r]],
      bestPriceCache =
        [''A_B'' \<mapsto> \<lparr>Forward = Some p1_16, Reverse = None, BestUpdatedAt = 1700000000\<rparr>,
         ''B_A'' \<mapsto> \<lparr>Forward = None, Reverse = Some p2_4r, BestUpdatedAt = 1700000000\<rparr>],
      logged = []\<rparr>"

definition stale3 :: state where
  \<comment> \<open>after pool 1 reported the price 1\<close>
  "stale3 =
     \<lparr>priceCache = [''A_B'' \<mapsto> [p2_4, p1_1], ''B_A'' \<mapsto> [p2_4r, p1_1r]],
      bestPriceCache =
        [''A_B'' \<mapsto> \<lparr>Forward = Some p1_16, Reverse = None, BestUpdatedAt = 1700000000\<rparr>,
         ''B_A'' \<mapsto> \<lparr>Forward = None, Reverse = Some p1_1r, BestUpdatedAt = 1700000000\<rparr>],
      logged = []\<rparr>"

definition zeroed :: state where
  \<comment> \<open>after pool 1 reported a Swap event with sqrtPriceX96 = 0, from the empty caches\<close>
  "zeroed =
     \<lparr>priceCache =
        [''A_B'' \<mapsto> [fwdRec ''uniswap'' pool1 (mkzero 97 False) (mkinf 53 True) clock0],
         ''B_A'' \<mapsto> [revRec ''uniswap'' pool1 (mkinf 97 False) (mkinf 53 True) clock0]],
      bestPriceCache =
        [''A_B'' \<mapsto> \<lparr>Forward = Some (fwdRec ''uniswap'' pool1 (mkzero 97 False) (mkinf 53 True) clock0),
                      Reverse = None, BestUpdatedAt = 1700000000\<rparr>,
         ''B_A'' \<mapsto> \<lparr>Forward = None,
                      Reverse = Some (revRec ''uniswap'' pool1 (mkinf 97 False) (mkinf 53 True) clock0),
                      BestUpdatedAt = 1700000000\<rparr>],
      logged = []\<rparr>"

definition isBest :: "PriceInfo \<Rightarrow> PriceInfo list \<Rightarrow> bool" where
  \<comment> \<open>\<open>r\<close> is a record of the bucket and no record of the bucket has a greater logPrice\<close>
  "isBest r xs = (r \<in> set xs \<and> list_all (\<lambda>x. Cmp (LogPrice x) (LogPrice r) \<le> 0) xs)"

definition price121 :: Float where
  \<comment> \<open>the price 121, as \<open>uniswapPrice\<close> decodes it from \<open>11 * 2 ^ 96\<close>, and the reverse
      price \<open>Quo\<close> computes from it\<close>
  "price121 = mkfinite 100 False 1198325958028248106102352248832 7"

definition reverse121 :: Float where
  "reverse121 = mkfinite 100 False 670492879459559352857760373091 (- 6)"

definition price_odd :: Float where
  \<comment> \<open>what \<open>uniswapPrice\<close> decodes from \<open>2 ^ 96 + 1\<close>: \<open>1 + 2 / 2 ^ 96\<close>\<close>
  "price_odd = mkfinite 97 False 79228162514264337593543950338 1"

definition product121 :: Float where
  \<comment> \<open>\<open>Mul\<close> of the price 121 and its reverse price: \<open>1 - 1 / 2 ^ 100\<close>\<close>
  "product121 = mkfinite 100 False 1267650600228229401496703205375 0"

section \<open>Basic lemmas\<close>

lemmas float_eval = SetInt_def BitLen_def Exp_def compute_floorlog setExpAndRound_def
  Float_round_def mkfinite_def mkzero_def mkinf_def Quo_def uquo_def Mul_def umul_def bindE_def
  MinExp_def MaxExp_def Let_def

lemmas cache_eval = updatePriceCache_def pairKey_def bucket_def bestEntry_def Cmp_def ord_def
  ucmp_def Float64_def Set_prec_def SetFloat64_def math_Log_def NewFloat_def one64_def Neg_def

lemma NewFloat_one64: "NewFloat one64 = Inr one53"
  by (simp add: NewFloat_def one64_def SetFloat64_def one53_def mkfinite_def compute_floorlog)

lemma Quo_one53: "\<exists>r. Quo one53 price = Inr r"
  by (cases "form price") (simp_all add: Quo_def one53_def mkfinite_def Let_def)

lemma bucket_put: "bucket (put a r k pc) k' = (if k' = k then removePool a (bucket pc k) @ [r] else bucket pc k')"
  by (simp add: put_def bucket_def)

lemma updatePriceCache_Inr:
  assumes "updatePriceCache lnf clk pool price dexType st = Inr st'"
  obtains lp rp where
    "SetFloat64 (math_Log lnf (Float64 price)) = Inr lp"
    "Quo one53 price = Inr rp"
    "priceCache st' =
       put (Address pool) (revRec dexType pool rp lp clk) (pairKey (Token1 pool) (Token0 pool))
         (put (Address pool) (fwdRec dexType pool price lp clk) (pairKey (Token0 pool) (Token1 pool))
            (priceCache st))"
    "logged st' = logged st"
proof -
  obtain lp where lp: "SetFloat64 (math_Log lnf (Float64 price)) = Inr lp"
    using assms by (cases "SetFloat64 (math_Log lnf (Float64 price))")
      (simp_all add: updatePriceCache_def bindE_def Let_def)
  obtain rp where rp: "Quo one53 price = Inr rp"
    using Quo_one53 by blast
  have "priceCache st' =
       put (Address pool) (revRec dexType pool rp lp clk) (pairKey (Token1 pool) (Token0 pool))
         (put (Address pool) (fwdRec dexType pool price lp clk) (pairKey (Token0 pool) (Token1 pool))
            (priceCache st))"
    and "logged st' = logged st"
    using assms lp rp
    by (auto simp add: updatePriceCache_def bindE_def Let_def NewFloat_one64 put_def fwdRec_def
        revRec_def)
  with lp rp that show thesis by blast
qed

lemma updatePriceCache_best:
  assumes "updatePriceCache lnf clk pool price dexType st = Inr st'"
    and "SetFloat64 (math_Log lnf (Float64 price)) = Inr lp"
    and "Quo one53 price = Inr rp"
  shows "bestPriceCache st' =
     (let fk = pairKey (Token0 pool) (Token1 pool);
          rk = pairKey (Token1 pool) (Token0 pool);
          bf = bestEntry (bestPriceCache st) fk;
          bc1 = (bestPriceCache st)(fk \<mapsto>
                  (if better lp (Forward bf)
                   then bf\<lparr>Forward := Some (fwdRec dexType pool price lp clk),
                           BestUpdatedAt := tBestForward clk\<rparr>
                   else bf));
          br = bestEntry bc1 rk
      in bc1(rk \<mapsto>
           (if better (Neg lp) (Reverse br)
            then br\<lparr>Reverse := Some (revRec dexType pool rp lp clk),
                    BestUpdatedAt := tBestReverse clk\<rparr>
            else br)))"
  using assms
  by (auto simp add: updatePriceCache_def bindE_def Let_def NewFloat_one64 better_def fwdRec_def
      revRec_def)

section \<open>Events that fail to decode\<close>

text \<open>
  C8.  When the payload of an event does not decode, the handler (of either protocol)
  writes one line to the log and returns: the directional price cache and the best-price
  cache are exactly as before, and the handler returns normally (no panic), so the loop
  of the subscription that called it goes on.
\<close>

theorem decode_failure_leaves_caches:
  assumes "unpackU (Data vLog) = Inl err" and "unpackC (Data vLog) = Inl err'"
  shows "handleUniswapEvent unpackU lnf clk vLog pool st =
           Inr (st\<lparr>logged := logged st @ [Printf ''Failed to unpack Uniswap event: %v'' [ArgErr err]]\<rparr>)
       \<and> handleCurveEvent unpackC lnf clk vLog pool st =
           Inr (st\<lparr>logged := logged st @ [Printf ''Failed to unpack Curve event: %v'' [ArgErr err']]\<rparr>)
       \<and> (\<forall>st'. handleUniswapEvent unpackU lnf clk vLog pool st = Inr st'
              \<or> handleCurveEvent unpackC lnf clk vLog pool st = Inr st'
            \<longrightarrow> priceCache st' = priceCache st \<and> bestPriceCache st' = bestPriceCache st)"
  using assms by (auto simp add: handleUniswapEvent_def handleCurveEvent_def)

theorem decode_failure_leaves_caches_witness:
  "handleUniswapEvent unpack_none ln_sample clock0 \<lparr>Data = [1, 2, 3]\<rparr> pool1 init_state =
     Inr (init_state\<lparr>logged := logged init_state @
            [Printf ''Failed to unpack Uniswap event: %v'' [ArgErr ''abi: cannot unmarshal'']]\<rparr>)
   \<and> handleCurveEvent unpack_none ln_sample clock0 \<lparr>Data = [1, 2, 3]\<rparr> pool1 init_state =
     Inr (init_state\<lparr>logged := logged init_state @
            [Printf ''Failed to unpack Curve event: %v'' [ArgErr ''abi: cannot unmarshal'']]\<rparr>)"
proof -
  have u: "unpack_none (Data \<lparr>Data = [1, 2, 3]\<rparr>) = (Inl ''abi: cannot unmarshal'' :: string + SwapEvent)"
    by (simp add: unpack_none_def)
  have c: "unpack_none (Data \<lparr>Data = [1, 2, 3]\<rparr>)
             = (Inl ''abi: cannot unmarshal'' :: string + TokenExchangeEvent)"
    by (simp add: unpack_none_def)
  show ?thesis
    using decode_failure_leaves_caches [where unpackU = unpack_none and unpackC = unpack_none
        and vLog = "\<lparr>Data = [1, 2, 3]\<rparr>" and err = "''abi: cannot unmarshal''"
        and err' = "''abi: cannot unmarshal''" and lnf = ln_sample and clk = clock0
        and pool = pool1 and st = init_state] u c
    by simp
qed

section \<open>What the Curve decoder reads\<close>

text \<open>
  C10.  The price decoded from a Curve TokenExchange event depends only on tokensSold,
  tokensBought and the decimals of the pool: two events with the same two amounts give the
  same price (or the same panic) whatever their soldID, boughtID and buyer are, and the
  caches after handling them are the same.  The decoder never looks at the asset indices.
\<close>

theorem curve_price_ignores_indices:
  assumes "TokensSold e1 = TokensSold e2" and "TokensBought e1 = TokensBought e2"
  shows "curvePrice e1 pool = curvePrice e2 pool
       \<and> (unpack (Data v1) = Inr e1 \<and> unpack (Data v2) = Inr e2 \<longrightarrow>
            map_sum id priceCache (handleCurveEvent unpack lnf clk v1 pool st)
              = map_sum id priceCache (handleCurveEvent unpack lnf clk v2 pool st)
          \<and> map_sum id bestPriceCache (handleCurveEvent unpack lnf clk v1 pool st)
              = map_sum id bestPriceCache (handleCurveEvent unpack lnf clk v2 pool st))"
proof -
  have p: "curvePrice e1 pool = curvePrice e2 pool"
    using assms by (simp add: curvePrice_def)
  show ?thesis
  proof (cases "curvePrice e2 pool")
    case (Inl e)
    with p show ?thesis by (simp add: handleCurveEvent_def bindE_def)
  next
    case (Inr price)
    with p show ?thesis
      by (cases "updatePriceCache lnf clk pool price ''curve'' st")
        (simp_all add: handleCurveEvent_def bindE_def)
  qed
qed

theorem curve_price_ignores_indices_witness:
  "curvePrice (exchange 0 1000000 1 2000000) pool_curve
     = curvePrice (exchange 1 1000000 0 2000000) pool_curve"
proof -
  have "TokensSold (exchange 0 1000000 1 2000000) = TokensSold (exchange 1 1000000 0 2000000)"
    and "TokensBought (exchange 0 1000000 1 2000000) = TokensBought (exchange 1 1000000 0 2000000)"
    by (simp_all add: exchange_def)
  from curve_price_ignores_indices [OF this] show ?thesis by simp
qed

section \<open>One record per pool in every bucket\<close>

lemma removePool_subset: "set (removePool a xs) \<subseteq> set xs"
  by (induction xs) auto

lemma removePool_distinct:
  "distinct (map PoolAddr xs) \<Longrightarrow> distinct (map PoolAddr (removePool a xs))"
proof (induction xs)
  case Nil
  then show ?case by simp
next
  case (Cons x xs)
  have "PoolAddr x \<notin> PoolAddr ` set (removePool a xs)"
    using Cons.prems removePool_subset [of a xs] by auto
  with Cons show ?case by simp
qed

lemma removePool_absent:
  "distinct (map PoolAddr xs) \<Longrightarrow> a \<notin> PoolAddr ` set (removePool a xs)"
  by (induction xs) auto

lemma put_bucket_distinct:
  assumes "distinct (map PoolAddr xs)" and "PoolAddr r = a"
  shows "distinct (map PoolAddr (removePool a xs @ [r]))"
  using assms removePool_distinct [of xs a] removePool_absent [of xs a] by auto

lemma put_bucket_filter:
  assumes "distinct (map PoolAddr xs)" and "PoolAddr r = a"
  shows "filter (\<lambda>x. PoolAddr x = a) (removePool a xs @ [r]) = [r]"
proof -
  have "filter (\<lambda>x. PoolAddr x = a) (removePool a xs) = []"
    using removePool_absent [OF assms(1), of a] by (auto simp add: filter_empty_conv)
  with assms(2) show ?thesis by simp
qed

lemma put_distinct:
  assumes "\<forall>k. distinct (map PoolAddr (bucket pc k))" and "PoolAddr r = a"
  shows "\<forall>k'. distinct (map PoolAddr (bucket (put a r k pc) k'))"
  using assms put_bucket_distinct [of "bucket pc k" r a] by (simp add: bucket_put)

lemma updatePriceCache_uniquePools:
  assumes "uniquePools st" and "updatePriceCache lnf clk pool price dexType st = Inr st'"
  shows "uniquePools st'"
proof -
  from assms(2) obtain lp rp where
    pc: "priceCache st' =
       put (Address pool) (revRec dexType pool rp lp clk) (pairKey (Token1 pool) (Token0 pool))
         (put (Address pool) (fwdRec dexType pool price lp clk) (pairKey (Token0 pool) (Token1 pool))
            (priceCache st))"
    by (rule updatePriceCache_Inr)
  have "\<forall>k. distinct (map PoolAddr (bucket (priceCache st) k))"
    using assms(1) by (simp add: uniquePools_def)
  then have "\<forall>k. distinct (map PoolAddr (bucket
      (put (Address pool) (fwdRec dexType pool price lp clk) (pairKey (Token0 pool) (Token1 pool))
            (priceCache st)) k))"
    by (rule put_distinct) (simp add: fwdRec_def)
  then have "\<forall>k. distinct (map PoolAddr (bucket (priceCache st') k))"
    unfolding pc by (rule put_distinct) (simp add: revRec_def)
  then show ?thesis by (simp add: uniquePools_def)
qed

lemma reachable_uniquePools: "reachable lnf st \<Longrightarrow> uniquePools st"
proof (induction rule: reachable.induct)
  case reach_init
  show ?case by (simp add: uniquePools_def init_state_def bucket_def)
next
  case (reach_update st clk pool price dexType st')
  then show ?case using updatePriceCache_uniquePools by blast
next
  case (reach_log st l)
  then show ?case by (simp add: uniquePools_def)
qed

text \<open>
  C4.  In every state the program can reach, no bucket of the directional cache holds
  two records with the same pool address.  An update removes the pool's earlier record
  and appends the new one: after it, the reverse bucket holds exactly one record of the
  pool, the one just built from the reciprocal price, and the forward bucket (when the two
  pair keys are different strings) exactly one, the one just built from the price.
\<close>

theorem bucket_one_record_per_pool:
  assumes "reachable lnf st"
    and "updatePriceCache lnf clk pool price dexType st = Inr st'"
  shows "(\<forall>k. distinct (map PoolAddr (bucket (priceCache st) k)))
       \<and> (\<forall>k. distinct (map PoolAddr (bucket (priceCache st') k)))
       \<and> (\<exists>lp rp. SetFloat64 (math_Log lnf (Float64 price)) = Inr lp \<and> Quo one53 price = Inr rp
            \<and> filter (\<lambda>x. PoolAddr x = Address pool)
                 (bucket (priceCache st') (pairKey (Token1 pool) (Token0 pool)))
                = [revRec dexType pool rp lp clk]
            \<and> (pairKey (Token0 pool) (Token1 pool) \<noteq> pairKey (Token1 pool) (Token0 pool) \<longrightarrow>
                 filter (\<lambda>x. PoolAddr x = Address pool)
                   (bucket (priceCache st') (pairKey (Token0 pool) (Token1 pool)))
                  = [fwdRec dexType pool price lp clk]))"
proof -
  have u: "uniquePools st"
    using assms(1) by (rule reachable_uniquePools)
  have u': "uniquePools st'"
    using u assms(2) by (rule updatePriceCache_uniquePools)
  from assms(2) obtain lp rp where
    lp: "SetFloat64 (math_Log lnf (Float64 price)) = Inr lp" and
    rp: "Quo one53 price = Inr rp" and
    pc: "priceCache st' =
       put (Address pool) (revRec dexType pool rp lp clk) (pairKey (Token1 pool) (Token0 pool))
         (put (Address pool) (fwdRec dexType pool price lp clk) (pairKey (Token0 pool) (Token1 pool))
            (priceCache st))"
    by (rule updatePriceCache_Inr)
  let ?fk = "pairKey (Token0 pool) (Token1 pool)" and ?rk = "pairKey (Token1 pool) (Token0 pool)"
  let ?pc1 = "put (Address pool) (fwdRec dexType pool price lp clk) ?fk (priceCache st)"
  have d0: "\<forall>k. distinct (map PoolAddr (bucket (priceCache st) k))"
    using u by (simp add: uniquePools_def)
  then have d1: "\<forall>k. distinct (map PoolAddr (bucket ?pc1 k))"
    by (rule put_distinct) (simp add: fwdRec_def)
  have br: "bucket (priceCache st') ?rk
              = removePool (Address pool) (bucket ?pc1 ?rk) @ [revRec dexType pool rp lp clk]"
    unfolding pc by (subst bucket_put) simp
  have r: "filter (\<lambda>x. PoolAddr x = Address pool) (bucket (priceCache st') ?rk)
             = [revRec dexType pool rp lp clk]"
    unfolding br using d1 by (intro put_bucket_filter) (simp_all add: revRec_def)
  have bf: "bucket (priceCache st') ?fk
              = removePool (Address pool) (bucket (priceCache st) ?fk)
                  @ [fwdRec dexType pool price lp clk]" if "?fk \<noteq> ?rk"
    unfolding pc using that by (simp add: bucket_put)
  have f: "filter (\<lambda>x. PoolAddr x = Address pool) (bucket (priceCache st') ?fk)
             = [fwdRec dexType pool price lp clk]" if "?fk \<noteq> ?rk"
    unfolding bf [OF that] using d0 by (intro put_bucket_filter) (simp_all add: fwdRec_def)
  show ?thesis
    using d0 u' lp rp r f by (auto simp add: uniquePools_def)
qed

theorem bucket_one_record_per_pool_witness:
  "reachable ln_sample init_state
   \<and> updatePriceCache ln_sample clock0 pool1 (SetInt 4) ''uniswap'' init_state
       = Inr (projr (updatePriceCache ln_sample clock0 pool1 (SetInt 4) ''uniswap'' init_state))
   \<and> (\<forall>k. distinct (map PoolAddr (bucket (priceCache
         (projr (updatePriceCache ln_sample clock0 pool1 (SetInt 4) ''uniswap'' init_state))) k)))"
proof -
  have r: "reachable ln_sample init_state"
    by (rule reach_init)
  have "\<exists>s. updatePriceCache ln_sample clock0 pool1 (SetInt 4) ''uniswap'' init_state = Inr s"
    by (simp add: cache_eval float_eval ln_sample_def)
  then have e: "updatePriceCache ln_sample clock0 pool1 (SetInt 4) ''uniswap'' init_state
       = Inr (projr (updatePriceCache ln_sample clock0 pool1 (SetInt 4) ''uniswap'' init_state))"
    by auto
  from bucket_one_record_per_pool [OF r e] r e show ?thesis by blast
qed

section \<open>The logarithm of the reverse record\<close>

lemma Cmp_same: "Cmp x x = 0"
  by (simp add: Cmp_def ucmp_def Let_def)

lemma Neg_Neg: "Neg (Neg x) = x"
  by (simp add: Neg_def)

text \<open>
  C6.  The two records written for one event carry opposite logarithms: the reverse
  record's logPrice is \<open>Neg\<close> of the forward record's (the same mantissa, exponent and
  precision with the sign bit flipped, not a second logarithm), so negating it gives back
  the forward logPrice field for field, and \<open>Cmp\<close> finds the two equal.  The forward
  logPrice is the float64 logarithm of the price.  (The two records are read back from
  their buckets, which needs the two pair keys to be different strings.)
\<close>

theorem reverse_logPrice_is_negation:
  assumes "updatePriceCache lnf clk pool price dexType st = Inr st'"
    and "pairKey (Token0 pool) (Token1 pool) \<noteq> pairKey (Token1 pool) (Token0 pool)"
    and "f = last (bucket (priceCache st') (pairKey (Token0 pool) (Token1 pool)))"
    and "r = last (bucket (priceCache st') (pairKey (Token1 pool) (Token0 pool)))"
  shows "LogPrice r = Neg (LogPrice f) \<and> LogPrice f = Neg (LogPrice r)
       \<and> Cmp (LogPrice f) (Neg (LogPrice r)) = 0
       \<and> SetFloat64 (math_Log lnf (Float64 price)) = Inr (LogPrice f)
       \<and> PoolAddr f = Address pool \<and> PoolAddr r = Address pool \<and> Price f = price"
proof -
  from assms(1) obtain lp rp where
    lp: "SetFloat64 (math_Log lnf (Float64 price)) = Inr lp" and
    pc: "priceCache st' =
       put (Address pool) (revRec dexType pool rp lp clk) (pairKey (Token1 pool) (Token0 pool))
         (put (Address pool) (fwdRec dexType pool price lp clk) (pairKey (Token0 pool) (Token1 pool))
            (priceCache st))"
    by (rule updatePriceCache_Inr)
  have f: "f = fwdRec dexType pool price lp clk"
    using assms(2) by (simp add: assms(3) pc bucket_put)
  have r: "r = revRec dexType pool rp lp clk"
    by (simp add: assms(4) pc bucket_put)
  show ?thesis
    by (simp add: f r lp fwdRec_def revRec_def Neg_Neg Cmp_same)
qed

theorem reverse_logPrice_is_negation_witness:
  "LogPrice (last (bucket (priceCache
      (projr (updatePriceCache ln_sample clock0 pool1 (SetInt 4) ''uniswap'' init_state))) ''B_A''))
   = Neg (LogPrice (last (bucket (priceCache
      (projr (updatePriceCache ln_sample clock0 pool1 (SetInt 4) ''uniswap'' init_state))) ''A_B'')))"
proof -
  have "\<exists>s. updatePriceCache ln_sample clock0 pool1 (SetInt 4) ''uniswap'' init_state = Inr s"
    by (simp add: cache_eval float_eval ln_sample_def)
  then have e: "updatePriceCache ln_sample clock0 pool1 (SetInt 4) ''uniswap'' init_state
       = Inr (projr (updatePriceCache ln_sample clock0 pool1 (SetInt 4) ''uniswap'' init_state))"
    by auto
  have k: "pairKey (Token0 pool1) (Token1 pool1) \<noteq> pairKey (Token1 pool1) (Token0 pool1)"
    by (simp add: pairKey_def pool1_def)
  have kf: "pairKey (Token0 pool1) (Token1 pool1) = ''A_B''"
    and kr: "pairKey (Token1 pool1) (Token0 pool1) = ''B_A''"
    by (simp_all add: pairKey_def pool1_def)
  from reverse_logPrice_is_negation [OF e k refl refl] show ?thesis
    unfolding kf kr by blast
qed

section \<open>Which fields of the best-price cache an update writes\<close>

text \<open>
  C9.  An update from a pool with token0 \<open>A\<close> and token1 \<open>B\<close> (the keys \<open>A_B\<close> and \<open>B_A\<close>
  being different strings) leaves the Reverse field of the entry \<open>A_B\<close>, the Forward
  field of the entry \<open>B_A\<close> and every other entry unchanged.  The Forward field of \<open>A_B\<close>
  is replaced by the new forward record exactly when that record is better than the
  Forward field held before, and the Reverse field of \<open>B_A\<close> likewise: the new records are
  compared with these two fields only, so a pool listing the pair as \<open>B\<close>, \<open>A\<close> (whose
  records go to the other two fields) is never compared with it.
\<close>

theorem best_update_frame:
  assumes "updatePriceCache lnf clk pool price dexType st = Inr st'"
    and "fk = pairKey (Token0 pool) (Token1 pool)"
    and "rk = pairKey (Token1 pool) (Token0 pool)"
    and "fk \<noteq> rk"
  shows "Reverse (bestEntry (bestPriceCache st') fk) = Reverse (bestEntry (bestPriceCache st) fk)
       \<and> Forward (bestEntry (bestPriceCache st') rk) = Forward (bestEntry (bestPriceCache st) rk)
       \<and> (\<forall>k. k \<noteq> fk \<and> k \<noteq> rk \<longrightarrow> bestPriceCache st' k = bestPriceCache st k)
       \<and> (\<exists>lp rp. SetFloat64 (math_Log lnf (Float64 price)) = Inr lp \<and> Quo one53 price = Inr rp
            \<and> Forward (bestEntry (bestPriceCache st') fk)
                = (if better lp (Forward (bestEntry (bestPriceCache st) fk))
                   then Some (fwdRec dexType pool price lp clk)
                   else Forward (bestEntry (bestPriceCache st) fk))
            \<and> Reverse (bestEntry (bestPriceCache st') rk)
                = (if better (Neg lp) (Reverse (bestEntry (bestPriceCache st) rk))
                   then Some (revRec dexType pool rp lp clk)
                   else Reverse (bestEntry (bestPriceCache st) rk)))"
proof -
  from assms(1) obtain lp rp where
    lp: "SetFloat64 (math_Log lnf (Float64 price)) = Inr lp" and
    rp: "Quo one53 price = Inr rp"
    by (rule updatePriceCache_Inr)
  note b = updatePriceCache_best [OF assms(1) lp rp, folded assms(2) assms(3)]
  have 1: "Reverse (bestEntry (bestPriceCache st') fk) = Reverse (bestEntry (bestPriceCache st) fk)"
    using assms(4) by (simp add: b Let_def bestEntry_def)
  have 2: "Forward (bestEntry (bestPriceCache st') rk) = Forward (bestEntry (bestPriceCache st) rk)"
    using assms(4) by (simp add: b Let_def bestEntry_def)
  have 3: "\<forall>k. k \<noteq> fk \<and> k \<noteq> rk \<longrightarrow> bestPriceCache st' k = bestPriceCache st k"
    by (simp add: b Let_def)
  have 4: "Forward (bestEntry (bestPriceCache st') fk)
                = (if better lp (Forward (bestEntry (bestPriceCache st) fk))
                   then Some (fwdRec dexType pool price lp clk)
                   else Forward (bestEntry (bestPriceCache st) fk))"
    using assms(4) by (simp add: b Let_def bestEntry_def)
  have 5: "Reverse (bestEntry (bestPriceCache st') rk)
                = (if better (Neg lp) (Reverse (bestEntry (bestPriceCache st) rk))
                   then Some (revRec dexType pool rp lp clk)
                   else Reverse (bestEntry (bestPriceCache st) rk))"
    using assms(4) by (simp add: b Let_def bestEntry_def)
  from 1 2 3 4 5 lp rp show ?thesis by blast
qed

theorem best_update_frame_witness:
  "Reverse (bestEntry (bestPriceCache
      (projr (updatePriceCache ln_sample clock0 pool1 (SetInt 4) ''uniswap'' init_state))) ''A_B'')
     = Reverse (bestEntry (bestPriceCache init_state) ''A_B'')
   \<and> Forward (bestEntry (bestPriceCache
      (projr (updatePriceCache ln_sample clock0 pool1 (SetInt 4) ''uniswap'' init_state))) ''B_A'')
     = Forward (bestEntry (bestPriceCache init_state) ''B_A'')"
proof -
  have "\<exists>s. updatePriceCache ln_sample clock0 pool1 (SetInt 4) ''uniswap'' init_state = Inr s"
    by (simp add: cache_eval float_eval ln_sample_def)
  then have e: "updatePriceCache ln_sample clock0 pool1 (SetInt 4) ''uniswap'' init_state
       = Inr (projr (updatePriceCache ln_sample clock0 pool1 (SetInt 4) ''uniswap'' init_state))"
    by auto
  have kf: "''A_B'' = pairKey (Token0 pool1) (Token1 pool1)"
    and kr: "''B_A'' = pairKey (Token1 pool1) (Token0 pool1)"
    by (simp_all add: pairKey_def pool1_def)
  have k: "''A_B'' \<noteq> ''B_A''"
    by simp
  from best_update_frame [OF e kf kr k] show ?thesis by blast
qed

section \<open>The best-price cache after a pool's price falls\<close>

lemmas sample_eval = ln_sample_def price16_def price4_def price1_def log16_def log4_def log1_def
  pool1_def pool2_def clock0_def init_state_def fwdRec_def revRec_def
  p1_16_def p1_16r_def p2_4_def p2_4r_def p1_1_def p1_1r_def

lemma stale1_eval:
  "updatePriceCache ln_sample clock0 pool1 price16 ''uniswap'' init_state = Inr stale1"
  by (simp add: stale1_def cache_eval float_eval sample_eval)

lemma stale2_eval:
  "updatePriceCache ln_sample clock0 pool2 price4 ''uniswap'' stale1 = Inr stale2"
  by (simp add: stale1_def stale2_def cache_eval float_eval sample_eval)

lemma stale3_eval:
  "updatePriceCache ln_sample clock0 pool1 price1 ''uniswap'' stale2 = Inr stale3"
  by (simp add: stale2_def stale3_def cache_eval float_eval sample_eval)

lemma prices_eval:
  "uniswapPrice (swap (2 ^ 98)) pool1 = Inr price16"
  "uniswapPrice (swap (2 ^ 97)) pool2 = Inr price4"
  "uniswapPrice (swap (2 ^ 96)) pool1 = Inr price1"
  by (simp_all add: uniswapPrice_def swap_def float_eval sample_eval word_sless_alt)

text \<open>
  C1 (the code departs from the claim).  Pool 1 and pool 2 trade A against B.  Pool 1
  reports the price 16, pool 2 the price 4, then pool 1 the price 1.  The bucket \<open>A_B\<close>
  then holds pool 2 at 4 and pool 1 at 1, and the record with the greatest logPrice in it
  is pool 2's.  The best-price cache still holds pool 1's first record at 16, which is
  no longer in the bucket: a record is replaced only by one with a greater logPrice.
\<close>

theorem best_price_goes_stale:
  "uniswapPrice (swap (2 ^ 98)) pool1 = Inr price16
   \<and> uniswapPrice (swap (2 ^ 97)) pool2 = Inr price4
   \<and> uniswapPrice (swap (2 ^ 96)) pool1 = Inr price1
   \<and> updatePriceCache ln_sample clock0 pool1 price16 ''uniswap'' init_state = Inr stale1
   \<and> updatePriceCache ln_sample clock0 pool2 price4 ''uniswap'' stale1 = Inr stale2
   \<and> updatePriceCache ln_sample clock0 pool1 price1 ''uniswap'' stale2 = Inr stale3
   \<and> isBest p1_16 (bucket (priceCache stale2) ''A_B'')
   \<and> Forward (bestEntry (bestPriceCache stale2) ''A_B'') = Some p1_16
   \<and> bucket (priceCache stale3) ''A_B'' = [p2_4, p1_1]
   \<and> isBest p2_4 (bucket (priceCache stale3) ''A_B'')
   \<and> Forward (bestEntry (bestPriceCache stale3) ''A_B'') = Some p1_16
   \<and> \<not> isBest p1_16 (bucket (priceCache stale3) ''A_B'')"
proof -
  have "isBest p1_16 (bucket (priceCache stale2) ''A_B'')"
    by (simp add: isBest_def stale2_def bucket_def Cmp_def ord_def ucmp_def
        sample_eval mkfinite_def compute_floorlog Let_def)
  moreover have "Forward (bestEntry (bestPriceCache stale2) ''A_B'') = Some p1_16"
    by (simp add: stale2_def bestEntry_def)
  moreover have "bucket (priceCache stale3) ''A_B'' = [p2_4, p1_1]"
    by (simp add: stale3_def bucket_def)
  moreover have "isBest p2_4 (bucket (priceCache stale3) ''A_B'')"
    by (simp add: isBest_def stale3_def bucket_def Cmp_def ord_def ucmp_def
        sample_eval mkfinite_def mkzero_def compute_floorlog Let_def)
  moreover have "Forward (bestEntry (bestPriceCache stale3) ''A_B'') = Some p1_16"
    by (simp add: stale3_def bestEntry_def)
  moreover have "\<not> isBest p1_16 (bucket (priceCache stale3) ''A_B'')"
    by (simp add: isBest_def stale3_def bucket_def sample_eval mkfinite_def mkzero_def)
  ultimately show ?thesis
    using prices_eval stale1_eval stale2_eval stale3_eval by simp
qed

section \<open>The decimal adjustment of the Curve decoder\<close>

text \<open>
  C2 (the code departs from the claim).  A Curve pool with decimals0 = 18 and
  decimals1 = 6 reports 10^18 base units sold for 10^6 bought.  The exponent
  decimals1 - decimals0 is -12, \<^verbatim>\<open>Exp\<close> with a negative exponent is 1, and the decoded price
  is the raw ratio 10^12 multiplied by 1, not the ratio divided by 10^12 (which is 1).
\<close>

theorem curve_negative_exponent_is_dropped:
  "sint (Decimals1 pool_curve - Decimals0 pool_curve) = - 12
   \<and> Exp 10 (sint (Decimals1 pool_curve - Decimals0 pool_curve)) = 1
   \<and> Quo (SetInt (10 ^ 18)) (SetInt (10 ^ 6)) = Inr (mkfinite 64 False 16777216000000000000 40)
   \<and> curvePrice (exchange 0 (10 ^ 18) 1 (10 ^ 6)) pool_curve
       = Inr (mkfinite 64 False 16777216000000000000 40)
   \<and> Cmp (mkfinite 64 False 16777216000000000000 40) (SetInt (10 ^ 12)) = 0
   \<and> Cmp (mkfinite 64 False 16777216000000000000 40) (SetInt 1) = 1"
proof -
  have "sint (Decimals1 pool_curve - Decimals0 pool_curve) = - 12"
    by (simp add: pool_curve_def)
  moreover from this have "Exp 10 (sint (Decimals1 pool_curve - Decimals0 pool_curve)) = 1"
    by (simp add: Exp_def)
  moreover have "Quo (SetInt (10 ^ 18)) (SetInt (10 ^ 6))
      = Inr (mkfinite 64 False 16777216000000000000 40)"
    by (simp add: float_eval)
  moreover have "curvePrice (exchange 0 (10 ^ 18) 1 (10 ^ 6)) pool_curve
       = Inr (mkfinite 64 False 16777216000000000000 40)"
    by (simp add: curvePrice_def exchange_def pool_curve_def float_eval)
  moreover have "Cmp (mkfinite 64 False 16777216000000000000 40) (SetInt (10 ^ 12)) = 0"
    by (simp add: Cmp_def ord_def ucmp_def float_eval)
  moreover have "Cmp (mkfinite 64 False 16777216000000000000 40) (SetInt 1) = 1"
    by (simp add: Cmp_def ord_def ucmp_def float_eval)
  ultimately show ?thesis by blast
qed

section \<open>Prices that are zero, infinite or negative\<close>

lemma updatePriceCache_total:
  assumes "SetFloat64 (math_Log lnf (Float64 price)) = Inr lp"
  shows "\<exists>st'. updatePriceCache lnf clk pool price dexType st = Inr st'"
proof -
  obtain rp where "Quo one53 price = Inr rp"
    using Quo_one53 by blast
  with assms show ?thesis
    by (simp add: updatePriceCache_def bindE_def Let_def NewFloat_one64)
qed

lemma Float64_sign:
  "Float64 x = Zero64 (neg x) \<or> Float64 x = Inf64 (neg x) \<or> (\<exists>m e. Float64 x = Num64 (neg x) m e)"
  by (simp add: Float64_def Let_def split: form.splits)

lemma Log_of_negative:
  assumes "neg x" and "Float64 x \<noteq> Zero64 True"
  shows "math_Log lnf (Float64 x) = NaN64"
  using assms Float64_sign [of x] by (auto simp add: math_Log_def)

text \<open>
  C3, counterexample.  A Swap event with sqrtPriceX96 = 0 decodes to the price 0.  The
  update does not fail: it returns the caches \<open>zeroed\<close>, where the bucket \<open>A_B\<close> holds a
  record with price 0 and logPrice -Inf, the bucket \<open>B_A\<close> one with price +Inf and
  logPrice +Inf, and both are the best records of their keys.
\<close>

theorem zero_price_is_stored:
  "uniswapPrice (swap 0) pool1 = Inr (mkzero 97 False)
   \<and> updatePriceCache ln_sample clock0 pool1 (mkzero 97 False) ''uniswap'' init_state = Inr zeroed
   \<and> bucket (priceCache zeroed) ''A_B''
       = [fwdRec ''uniswap'' pool1 (mkzero 97 False) (mkinf 53 True) clock0]
   \<and> bucket (priceCache init_state) ''A_B'' = []
   \<and> bestPriceCache zeroed ''A_B'' \<noteq> bestPriceCache init_state ''A_B''"
proof -
  have "uniswapPrice (swap 0) pool1 = Inr (mkzero 97 False)"
    by (simp add: uniswapPrice_def swap_def float_eval sample_eval word_sless_alt)
  moreover have "updatePriceCache ln_sample clock0 pool1 (mkzero 97 False) ''uniswap'' init_state
      = Inr zeroed"
    by (simp add: zeroed_def cache_eval float_eval sample_eval)
  moreover have "bucket (priceCache zeroed) ''A_B''
       = [fwdRec ''uniswap'' pool1 (mkzero 97 False) (mkinf 53 True) clock0]"
    by (simp add: zeroed_def bucket_def)
  moreover have "bucket (priceCache init_state) ''A_B'' = []"
    by (simp add: init_state_def bucket_def)
  moreover have "bestPriceCache zeroed ''A_B'' \<noteq> bestPriceCache init_state ''A_B''"
    by (simp add: zeroed_def init_state_def)
  ultimately show ?thesis by blast
qed

text \<open>
  C3, amended.  \<^verbatim>\<open>updatePriceCache\<close> has no check of the price.  A price that is zero or
  +Inf is stored like any other: the call returns, the reverse bucket ends with the pool's
  new record (reciprocal \<open>\<plusminus>Inf\<close> or 0, logPrice +Inf or -Inf) and the forward bucket (when
  the two keys differ) with the record of the price itself.  Only a negative price stops
  the update: unless it is so small that it converts to the float64 -0, its logarithm is
  NaN and \<^verbatim>\<open>SetFloat64\<close> panics with ErrNaN before any cache is written.
\<close>

theorem price_is_not_validated:
  "(form price = form_zero \<or> form price = form_inf \<and> \<not> neg price \<longrightarrow>
      (\<exists>st' lp rp.
          updatePriceCache lnf clk pool price dexType st = Inr st'
        \<and> lp = (if form price = form_zero then mkinf 53 True else mkinf 53 False)
        \<and> rp = (if form price = form_zero then mkinf (max 53 (prec price)) (neg price)
                else mkzero (max 53 (prec price)) False)
        \<and> last (bucket (priceCache st') (pairKey (Token1 pool) (Token0 pool)))
            = revRec dexType pool rp lp clk
        \<and> (pairKey (Token0 pool) (Token1 pool) \<noteq> pairKey (Token1 pool) (Token0 pool) \<longrightarrow>
             last (bucket (priceCache st') (pairKey (Token0 pool) (Token1 pool)))
               = fwdRec dexType pool price lp clk)))
   \<and> (neg price \<and> Float64 price \<noteq> Zero64 True \<longrightarrow>
        updatePriceCache lnf clk pool price dexType st = Inl (ErrNaN ''Float.SetFloat64(NaN)''))"
proof (intro conjI impI)
  assume a: "form price = form_zero \<or> form price = form_inf \<and> \<not> neg price"
  define lp where "lp = (if form price = form_zero then mkinf 53 True else mkinf 53 False)"
  define rp where "rp = (if form price = form_zero then mkinf (max 53 (prec price)) (neg price)
                else mkzero (max 53 (prec price)) False)"
  have l: "SetFloat64 (math_Log lnf (Float64 price)) = Inr lp"
    using a by (auto simp add: lp_def Float64_def math_Log_def SetFloat64_def)
  have q: "Quo one53 price = Inr rp"
    using a by (auto simp add: rp_def Quo_def one53_def mkfinite_def Let_def)
  obtain st' where s: "updatePriceCache lnf clk pool price dexType st = Inr st'"
    using updatePriceCache_total [OF l] by blast
  from s obtain lp' rp' where
    l': "SetFloat64 (math_Log lnf (Float64 price)) = Inr lp'" and
    q': "Quo one53 price = Inr rp'" and
    pc: "priceCache st' =
       put (Address pool) (revRec dexType pool rp' lp' clk) (pairKey (Token1 pool) (Token0 pool))
         (put (Address pool) (fwdRec dexType pool price lp' clk) (pairKey (Token0 pool) (Token1 pool))
            (priceCache st))"
    by (rule updatePriceCache_Inr)
  have e: "lp' = lp" "rp' = rp"
    using l l' q q' by simp_all
  have "last (bucket (priceCache st') (pairKey (Token1 pool) (Token0 pool)))
            = revRec dexType pool rp lp clk"
    by (simp add: pc e bucket_put)
  moreover have "pairKey (Token0 pool) (Token1 pool) \<noteq> pairKey (Token1 pool) (Token0 pool) \<longrightarrow>
             last (bucket (priceCache st') (pairKey (Token0 pool) (Token1 pool)))
               = fwdRec dexType pool price lp clk"
    by (simp add: pc e bucket_put)
  ultimately show "\<exists>st' lp rp.
          updatePriceCache lnf clk pool price dexType st = Inr st'
        \<and> lp = (if form price = form_zero then mkinf 53 True else mkinf 53 False)
        \<and> rp = (if form price = form_zero then mkinf (max 53 (prec price)) (neg price)
                else mkzero (max 53 (prec price)) False)
        \<and> last (bucket (priceCache st') (pairKey (Token1 pool) (Token0 pool)))
            = revRec dexType pool rp lp clk
        \<and> (pairKey (Token0 pool) (Token1 pool) \<noteq> pairKey (Token1 pool) (Token0 pool) \<longrightarrow>
             last (bucket (priceCache st') (pairKey (Token0 pool) (Token1 pool)))
               = fwdRec dexType pool price lp clk)"
    using s by (auto simp add: lp_def rp_def)
next
  assume "neg price \<and> Float64 price \<noteq> Zero64 True"
  then have "math_Log lnf (Float64 price) = NaN64"
    using Log_of_negative by blast
  then show "updatePriceCache lnf clk pool price dexType st = Inl (ErrNaN ''Float.SetFloat64(NaN)'')"
    by (simp add: updatePriceCache_def bindE_def Let_def SetFloat64_def)
qed

theorem price_is_not_validated_witness:
  "(\<exists>st'. updatePriceCache ln_sample clock0 pool1 (mkzero 97 False) ''uniswap'' init_state = Inr st'
      \<and> last (bucket (priceCache st') ''B_A'')
          = revRec ''uniswap'' pool1 (mkinf 97 False) (mkinf 53 True) clock0
      \<and> last (bucket (priceCache st') ''A_B'')
          = fwdRec ''uniswap'' pool1 (mkzero 97 False) (mkinf 53 True) clock0)
   \<and> updatePriceCache ln_sample clock0 pool1 (mkinf 97 True) ''uniswap'' init_state
       = Inl (ErrNaN ''Float.SetFloat64(NaN)'')"
proof -
  have z: "form (mkzero 97 False) = form_zero \<or> form (mkzero 97 False) = form_inf \<and> \<not> neg (mkzero 97 False)"
    by (simp add: mkzero_def)
  have n: "neg (mkinf 97 True) \<and> Float64 (mkinf 97 True) \<noteq> Zero64 True"
    by (simp add: mkinf_def Float64_def)
  have k: "pairKey (Token0 pool1) (Token1 pool1) = ''A_B''"
    "pairKey (Token1 pool1) (Token0 pool1) = ''B_A''"
    by (simp_all add: pairKey_def pool1_def)
  have p: "prec (mkzero 97 False) = 97" "form (mkzero 97 False) = form_zero"
    "neg (mkzero 97 False) = False"
    by (simp_all add: mkzero_def)
  from price_is_not_validated [of "mkzero 97 False" ln_sample clock0 pool1 "''uniswap''" init_state]
    z
  have "\<exists>st'. updatePriceCache ln_sample clock0 pool1 (mkzero 97 False) ''uniswap'' init_state = Inr st'
      \<and> last (bucket (priceCache st') ''B_A'')
          = revRec ''uniswap'' pool1 (mkinf 97 False) (mkinf 53 True) clock0
      \<and> last (bucket (priceCache st') ''A_B'')
          = fwdRec ''uniswap'' pool1 (mkzero 97 False) (mkinf 53 True) clock0"
    by (simp add: k p)
  moreover from price_is_not_validated [of "mkinf 97 True" ln_sample clock0 pool1 "''uniswap''" init_state]
    n
  have "updatePriceCache ln_sample clock0 pool1 (mkinf 97 True) ''uniswap'' init_state
       = Inl (ErrNaN ''Float.SetFloat64(NaN)'')"
    by blast
  ultimately show ?thesis by blast
qed

section \<open>Rounding: how far a Float operation is from the exact result\<close>

lemma floorlog2_bounds:
  assumes "0 < m"
  shows "2 ^ (floorlog 2 m - 1) \<le> m" and "m < 2 ^ floorlog 2 m" and "0 < floorlog 2 m"
proof -
  show "2 ^ (floorlog 2 m - 1) \<le> m" "m < 2 ^ floorlog 2 m"
    using floorlog_bounds [of m 2] assms by auto
  show "0 < floorlog 2 m"
    using assms floorlog_eq_zero_iff [of 2 m] by auto
qed

lemma floorlog2_eqI:
  assumes "2 ^ (p - 1) \<le> m" and "m < 2 ^ p" and "0 < p"
  shows "floorlog 2 m = p"
proof -
  have "floorlog 2 m \<le> p"
    using assms(2) by (simp add: floorlog_le_iff)
  moreover have "p \<le> floorlog 2 m"
    using assms(1) by (intro floorlog_geI) simp_all
  ultimately show ?thesis by simp
qed

lemma mag_bounds:
  assumes "fin x"
  shows "2 powi (expn x - 1) \<le> mag x" and "mag x < 2 powi (expn x)" and "0 < mag x"
proof -
  let ?m = "mant x" and ?l = "floorlog 2 (mant x)"
  have m: "0 < ?m" using assms by (simp add: fin_def)
  note b = floorlog2_bounds [OF m]
  have lo: "(2::real) ^ (?l - 1) \<le> real ?m"
    using b(1) by (metis of_nat_le_iff of_nat_numeral of_nat_power)
  have hi: "real ?m < 2 ^ ?l"
    using b(2) by (metis of_nat_less_iff of_nat_numeral of_nat_power)
  have "(2::real) powi (expn x - 1) = 2 ^ (?l - 1) * 2 powi (expn x - int ?l)"
    using b(3) by (simp add: power_int_add [symmetric] of_nat_diff flip: power_int_of_nat)
  also have "\<dots> \<le> real ?m * 2 powi (expn x - int ?l)"
    using lo by (intro mult_right_mono) simp_all
  finally show "2 powi (expn x - 1) \<le> mag x" by (simp add: mag_def)
  have "real ?m * 2 powi (expn x - int ?l) < 2 ^ ?l * 2 powi (expn x - int ?l)"
    using hi by (intro mult_strict_right_mono) simp_all
  also have "\<dots> = 2 powi (expn x)"
    by (simp add: power_int_add [symmetric] flip: power_int_of_nat)
  finally show "mag x < 2 powi (expn x)" by (simp add: mag_def)
  show "0 < mag x" using m by (simp add: mag_def)
qed


lemma round_arith:
  fixes m r :: nat and f :: real
  assumes f: "0 \<le> f" "f < 1"
  defines "q \<equiv> m div 2 ^ (r + 1)"
  defines "inc \<equiv> odd (m div 2 ^ r) \<and> ((0 < f \<or> m mod 2 ^ r \<noteq> 0) \<or> odd q)"
  shows "\<bar>real (if inc then q + 1 else q) * 2 ^ (r + 1) - (real m + f)\<bar> \<le> 2 ^ r"
proof -
  define b where "b = m div 2 ^ r mod 2"
  define u where "u = m mod 2 ^ r"
  have u: "u < 2 ^ r"
    by (simp add: u_def)
  have "(2::nat) ^ (r + 1) = 2 ^ r * 2"
    by simp
  then have q: "q = m div 2 ^ r div 2"
    by (simp only: q_def div_mult2_eq)
  have "m = (m div 2 ^ r) * 2 ^ r + u"
    unfolding u_def by (rule div_mult_mod_eq [symmetric])
  also have "m div 2 ^ r = q * 2 + b"
    by (simp add: q b_def)
  finally have decomp: "m = q * 2 ^ (r + 1) + b * 2 ^ r + u"
    by (simp add: algebra_simps)
  have b: "b = 0 \<or> b = 1"
    by (auto simp add: b_def)
  have ob: "odd (m div 2 ^ r) \<longleftrightarrow> b = 1"
    by (auto simp add: b_def odd_iff_mod_2_eq_one)
  have rm: "real m = real q * 2 ^ (r + 1) + real b * 2 ^ r + real u"
    by (subst decomp) simp
  have ru: "real u \<le> 2 ^ r - 1"
  proof -
    have "u + 1 \<le> 2 ^ r" using u by simp
    then have "real (u + 1) \<le> real (2 ^ r)" by (rule of_nat_mono)
    then show ?thesis by simp
  qed
  have u0: "m mod 2 ^ r \<noteq> 0 \<longleftrightarrow> 0 < real u"
    by (simp add: u_def)
  have p: "(2::real) ^ (r + 1) = 2 * 2 ^ r"
    by simp
  show ?thesis
  proof (cases inc)
    case True
    then have "b = 1" by (simp add: inc_def ob)
    with True show ?thesis
      using f ru by (simp add: rm p algebra_simps abs_le_iff)
  next
    case False
    show ?thesis
    proof (cases "b = 1")
      case True
      with False have "f = 0" "real u = 0"
        using f u0 by (auto simp add: inc_def ob)
      with False True show ?thesis
        by (simp add: rm p algebra_simps)
    next
      case False
      then have "b = 0" using b by simp
      with \<open>\<not> inc\<close> show ?thesis
        using f ru by (simp add: rm p algebra_simps abs_le_iff)
    qed
  qed
qed

lemma round_quot_bounds:
  fixes m p l :: nat
  assumes "2 ^ (l - 1) \<le> m" and "m < 2 ^ l" and "p < l" and "0 < p"
  shows "2 ^ (p - 1) \<le> m div 2 ^ (l - p)" and "m div 2 ^ (l - p) < 2 ^ p"
proof -
  have e1: "(2::nat) ^ l = 2 ^ p * 2 ^ (l - p)"
    using assms(3) by (simp flip: power_add)
  have e2: "(2::nat) ^ (l - 1) = 2 ^ (p - 1) * 2 ^ (l - p)"
    using assms(3,4) by (simp flip: power_add)
  show "m div 2 ^ (l - p) < 2 ^ p"
    using assms(2) unfolding e1 by (simp add: less_mult_imp_div_less)
  have "2 ^ (p - 1) * 2 ^ (l - p) div 2 ^ (l - p) \<le> m div 2 ^ (l - p)"
    using assms(1) unfolding e2 by (rule div_le_mono)
  then show "2 ^ (p - 1) \<le> m div 2 ^ (l - p)"
    by simp
qed


lemma powi_add_nat: "(2::real) powi (a + int n) = 2 powi a * 2 ^ n"
  by (simp add: power_int_add)

lemma powi_diff_nat: "(2::real) powi (a - int n) = 2 powi a / 2 ^ n"
  by (simp add: power_int_diff)

lemma Float_round_cut:
  fixes sbit :: bool and f :: real
  assumes m: "0 < m" and p: "0 < p" "p < floorlog 2 m" and e: "e < MaxExp"
    and f: "0 \<le> f" "f < 1" and sb: "sbit \<longleftrightarrow> 0 < f"
  shows "\<exists>m'. Float_round (mkfinite p ng m e) sbit
                = mkfinite p ng (if m' = 2 ^ p then 2 ^ (p - 1) else m')
                    (if m' = 2 ^ p then e + 1 else e)
             \<and> 2 ^ (p - 1) \<le> m' \<and> m' \<le> 2 ^ p
             \<and> \<bar>real m' * 2 ^ (floorlog 2 m - p) - (real m + f)\<bar> \<le> 2 ^ (floorlog 2 m - p - 1)"
proof -
  define r where "r = floorlog 2 m - p - 1"
  define q where "q = m div 2 ^ (r + 1)"
  define inc where "inc \<longleftrightarrow> odd (m div 2 ^ r) \<and> ((sbit \<or> m mod 2 ^ r \<noteq> 0) \<or> odd q)"
  define m' where "m' = (if inc then q + 1 else q)"
  have rp: "r + 1 = floorlog 2 m - p"
    using p by (simp add: r_def)
  have qb: "2 ^ (p - 1) \<le> q" "q < 2 ^ p"
    unfolding q_def rp
    by (rule round_quot_bounds [OF floorlog2_bounds(1) [OF m] floorlog2_bounds(2) [OF m] p(2) p(1)])+
  have b: "2 ^ (p - 1) \<le> m'" "m' \<le> 2 ^ p"
    using qb by (auto simp add: m'_def)
  have sel: "form (mkfinite p ng m e) = form_finite" "mant (mkfinite p ng m e) = m"
    "prec (mkfinite p ng m e) = p" "expn (mkfinite p ng m e) = e" "neg (mkfinite p ng m e) = ng"
    by (simp_all add: mkfinite_def)
  have nle: "\<not> floorlog 2 m \<le> p"
    using p by simp
  have "Float_round (mkfinite p ng m e) sbit =
      (if inc then
         (if q + 1 = 2 ^ p then
            (if expn (mkfinite p ng m e) \<ge> MaxExp then mkinf p ng
             else (mkfinite p ng m e)\<lparr>mant := 2 ^ (p - 1), expn := e + 1\<rparr>)
          else (mkfinite p ng m e)\<lparr>mant := q + 1\<rparr>)
       else (mkfinite p ng m e)\<lparr>mant := q\<rparr>)"
    unfolding Float_round_def Let_def sel
    by (simp only: nle if_False if_True r_def [symmetric] q_def [symmetric] inc_def [symmetric]
        simp_thms)
  then have z: "Float_round (mkfinite p ng m e) sbit
      = mkfinite p ng (if m' = 2 ^ p then 2 ^ (p - 1) else m') (if m' = 2 ^ p then e + 1 else e)"
    using e qb by (auto simp add: mkfinite_def m'_def)
  have inc': "inc \<longleftrightarrow> odd (m div 2 ^ r) \<and> ((0 < f \<or> m mod 2 ^ r \<noteq> 0) \<or> odd q)"
    by (simp only: inc_def sb)
  have "\<bar>real m' * 2 ^ (r + 1) - (real m + f)\<bar> \<le> 2 ^ r"
    using round_arith [OF f, of m r] unfolding q_def [symmetric] inc' [symmetric] m'_def [symmetric] .
  then have "\<bar>real m' * 2 ^ (floorlog 2 m - p) - (real m + f)\<bar> \<le> 2 ^ r"
    unfolding rp .
  then have "\<bar>real m' * 2 ^ (floorlog 2 m - p) - (real m + f)\<bar> \<le> 2 ^ (floorlog 2 m - p - 1)"
    unfolding r_def .
  with z b show ?thesis by blast
qed

lemma Float_round_val:
  fixes f :: real and sbit :: bool and ng :: bool and e :: int and m p :: nat
  assumes m: "0 < m" and p: "0 < p" and e: "e < MaxExp"
    and f: "0 \<le> f" "f < 1" and sb: "sbit \<longleftrightarrow> 0 < f" and big: "sbit \<longrightarrow> p < floorlog 2 m"
  defines "z \<equiv> Float_round (mkfinite p ng m e) sbit"
  shows "fin z" and "prec z = p" and "neg z = ng"
    and "\<bar>mag z - (real m + f) * 2 powi (e - int (floorlog 2 m))\<bar> \<le> 2 powi (e - 1 - int p)"
proof -
  let ?l = "floorlog 2 m"
  let ?V = "(real m + f) * 2 powi (e - int ?l)"
  have all: "fin z \<and> prec z = p \<and> neg z = ng \<and> \<bar>mag z - ?V\<bar> \<le> 2 powi (e - 1 - int p)"
  proof (cases "p < ?l")
    case True
    from Float_round_cut [OF m p True e f sb, of ng] obtain m' where
      z: "z = mkfinite p ng (if m' = 2 ^ p then 2 ^ (p - 1) else m')
                (if m' = 2 ^ p then e + 1 else e)" and
      lo: "2 ^ (p - 1) \<le> m'" and hi: "m' \<le> 2 ^ p" and
      ra: "\<bar>real m' * 2 ^ (?l - p) - (real m + f)\<bar> \<le> 2 ^ (?l - p - 1)"
      unfolding z_def by blast
    define ms where "ms = (if m' = 2 ^ p then 2 ^ (p - 1) else m')"
    have ms: "2 ^ (p - 1) \<le> ms" "ms < 2 ^ p"
      using lo hi p by (auto simp add: ms_def)
    have mspos: "0 < ms"
      using ms(1) by (metis gr0I not_le zero_less_numeral zero_less_power)
    have fl: "floorlog 2 ms = p"
      using ms p by (intro floorlog2_eqI) simp_all
    have z': "z = mkfinite p ng ms (if m' = 2 ^ p then e + 1 else e)"
      by (simp only: z ms_def)
    have mz: "mag z = real m' * 2 powi (e - int p)"
    proof (cases "m' = 2 ^ p")
      case True
      have "(2::real) ^ (p - 1) * 2 = 2 ^ p"
        using p by (cases p) simp_all
      moreover have "(2::real) powi (e + 1 - int p) = 2 * 2 powi (e - int p)"
      proof -
        have "e + 1 - int p = (e - int p) + int 1" by simp
        then show ?thesis by (simp only: powi_add_nat) simp
      qed
      ultimately have h: "(2::real) ^ (p - 1) * 2 powi (e + 1 - int p) = 2 ^ p * 2 powi (e - int p)"
        by (simp add: mult.assoc [symmetric])
      have msv: "real ms = 2 ^ (p - 1)"
        using True by (simp add: ms_def)
      have "mag z = real ms * 2 powi (e + 1 - int p)"
        using True by (simp add: mag_def z' mkfinite_def fl)
      also have "\<dots> = 2 ^ p * 2 powi (e - int p)"
        unfolding msv by (rule h)
      finally show ?thesis
        using True by simp
    next
      case False
      then have "ms = m'" by (simp add: ms_def)
      moreover have "mag z = real ms * 2 powi (e - int p)"
        using False by (simp add: mag_def z' mkfinite_def fl)
      ultimately show ?thesis by simp
    qed
    have ep: "e - int p = (e - int ?l) + int (?l - p)"
      using True by simp
    have pw: "(2::real) powi (e - int p) = 2 powi (e - int ?l) * 2 ^ (?l - p)"
      unfolding ep by (rule powi_add_nat)
    have "mag z - ?V = 2 powi (e - int ?l) * (real m' * 2 ^ (?l - p) - (real m + f))"
      unfolding mz pw by (simp add: algebra_simps)
    then have "\<bar>mag z - ?V\<bar> = 2 powi (e - int ?l) * \<bar>real m' * 2 ^ (?l - p) - (real m + f)\<bar>"
      by (simp add: abs_mult)
    also have "\<dots> \<le> 2 powi (e - int ?l) * 2 ^ (?l - p - 1)"
      using ra by (intro mult_left_mono) simp_all
    also have "\<dots> = 2 powi (e - 1 - int p)"
    proof -
      have "e - 1 - int p = (e - int ?l) + int (?l - p - 1)"
        using True by simp
      then show ?thesis by (simp only: powi_add_nat)
    qed
    finally have "\<bar>mag z - ?V\<bar> \<le> 2 powi (e - 1 - int p)" .
    then show ?thesis
      using mspos by (simp add: z' fin_def mkfinite_def)
  next
    case False
    then have "\<not> sbit" using big by blast
    then have f0: "f = 0" using sb f by simp
    have z: "z = mkfinite p ng m e"
      using False by (simp add: z_def Float_round_def mkfinite_def Let_def)
    have "mag z = ?V"
      by (simp add: z mag_def mkfinite_def f0)
    then show ?thesis
      using m by (simp add: z fin_def mkfinite_def)
  qed
  from all show "fin z" "prec z = p" "neg z = ng"
    "\<bar>mag z - ?V\<bar> \<le> 2 powi (e - 1 - int p)" by blast+
qed


lemma powi2_less_iff: "(2::real) powi a < 2 powi b \<longleftrightarrow> a < b"
proof
  assume "(2::real) powi a < 2 powi b"
  then show "a < b"
    by (metis not_less one_le_numeral power_int_increasing)
next
  assume "a < b"
  then show "(2::real) powi a < 2 powi b"
    by (intro power_int_strict_increasing) simp_all
qed

lemma powi2_half: "(2::real) powi (a - 1) = 2 powi a / 2"
  by (simp add: power_int_diff)

lemma setExpAndRound_val:
  fixes f V :: real and sbit :: bool and ng :: bool and e A B :: int and m p :: nat
  assumes m: "0 < m" and p: "0 < p"
    and f: "0 \<le> f" "f < 1" and sb: "sbit \<longleftrightarrow> 0 < f" and big: "sbit \<longrightarrow> p < floorlog 2 m"
    and V: "V = (real m + f) * 2 powi (e - int (floorlog 2 m))"
    and lo: "2 powi A \<le> V" and hi: "V < 2 powi B"
    and rng: "MinExp \<le> A + 1" "B < MaxExp"
  defines "z \<equiv> setExpAndRound p ng m e sbit"
  shows "fin z" and "prec z = p" and "neg z = ng"
    and "\<bar>mag z - V\<bar> \<le> V / 2 ^ p"
    and "2 powi (A - 1) \<le> mag z" and "mag z < 2 powi (B + 1)"
proof -
  let ?l = "floorlog 2 m"
  note b = floorlog2_bounds [OF m]
  have rm1: "(2::real) ^ (?l - 1) \<le> real m"
    using b(1) by (metis of_nat_le_iff of_nat_numeral of_nat_power)
  have rm2: "real m + 1 \<le> 2 ^ ?l"
  proof -
    have "m + 1 \<le> 2 ^ ?l" using b(2) by simp
    then have "real (m + 1) \<le> real (2 ^ ?l)" by (rule of_nat_mono)
    then show ?thesis by simp
  qed
  have p1: "(2::real) powi (e - 1) = 2 ^ (?l - 1) * 2 powi (e - int ?l)"
  proof -
    have "e - 1 = (e - int ?l) + int (?l - 1)" using b(3) by simp
    then show ?thesis by (simp only: powi_add_nat mult.commute)
  qed
  have p2: "(2::real) powi e = 2 ^ ?l * 2 powi (e - int ?l)"
  proof -
    have "e = (e - int ?l) + int ?l" by simp
    then have "(2::real) powi e = 2 powi (e - int ?l) * 2 ^ ?l" by (metis powi_add_nat)
    then show ?thesis by (simp only: mult.commute)
  qed
  have "(2::real) ^ (?l - 1) \<le> real m + f"
    using rm1 f by linarith
  then have Vlo: "2 powi (e - 1) \<le> V"
    unfolding V p1 by (intro mult_right_mono) simp_all
  have Vhi: "V < 2 powi e"
  proof -
    have "V < (real m + 1) * 2 powi (e - int ?l)"
      unfolding V using f by (intro mult_strict_right_mono) simp_all
    also have "\<dots> \<le> 2 ^ ?l * 2 powi (e - int ?l)"
      using rm2 by (intro mult_right_mono) simp_all
    finally show ?thesis unfolding p2 .
  qed
  have "(2::real) powi A < 2 powi e"
    using lo Vhi by simp
  then have Ae: "A < e" by (simp only: powi2_less_iff)
  have "(2::real) powi (e - 1) < 2 powi B"
    using Vlo hi by simp
  then have eB: "e - 1 < B" by (simp only: powi2_less_iff)
  have e1: "MinExp \<le> e" and e2: "e < MaxExp"
    using Ae eB rng by simp_all
  have z: "z = Float_round (mkfinite p ng m e) sbit"
    using e1 e2 by (simp add: z_def setExpAndRound_def)
  note r = Float_round_val [OF m p e2 f sb big, of ng, folded z, folded V]
  show "fin z" "prec z = p" "neg z = ng"
    by (rule r)+
  have Vpos: "0 < V"
    using Vlo by (smt (verit) zero_less_power_int)
  have "(2::real) powi (e - 1 - int p) = 2 powi (e - 1) / 2 ^ p"
    by (simp add: power_int_diff)
  also have "\<dots> \<le> V / 2 ^ p"
    using Vlo by (simp add: divide_right_mono)
  finally have "2 powi (e - 1 - int p) \<le> V / 2 ^ p" .
  with r(4) show err: "\<bar>mag z - V\<bar> \<le> V / 2 ^ p"
    by simp
  have "(2::real) ^ 1 \<le> 2 ^ p"
    using p by (intro power_increasing) simp_all
  then have "(2::real) \<le> 2 ^ p" by simp
  then have "V / 2 ^ p \<le> V / 2"
    using Vpos by (intro divide_left_mono) simp_all
  with err have h: "\<bar>mag z - V\<bar> \<le> V / 2" by (rule order_trans)
  have "2 powi (A - 1) \<le> V / 2"
    unfolding powi2_half using lo by (intro divide_right_mono) simp_all
  with h show "2 powi (A - 1) \<le> mag z" by linarith
  have "mag z < 2 * V"
    using h Vpos by linarith
  also have "\<dots> < 2 * 2 powi B"
    using hi by linarith
  also have "\<dots> = 2 powi (B + 1)"
    by (simp add: power_int_add)
  finally show "mag z < 2 powi (B + 1)" .
qed


lemma bnd_pos: "bnd x A B \<Longrightarrow> 0 < mag x"
  by (simp add: bnd_def mag_bounds(3))

lemma umul_val:
  fixes x y :: Float and p :: nat and ng :: bool
  assumes x: "bnd x A B" and y: "bnd y C D" and p: "0 < p"
    and rng: "MinExp \<le> A + C + 1" "B + D < MaxExp"
  defines "z \<equiv> umul p ng x y"
  shows "bnd z (A + C - 1) (B + D + 1)" and "prec z = p" and "neg z = ng"
    and "\<bar>mag z - mag x * mag y\<bar> \<le> mag x * mag y / 2 ^ p"
proof -
  let ?m = "mant x * mant y"
  let ?e = "expn x + expn y
              - (int (floorlog 2 (mant x)) + int (floorlog 2 (mant y)) - int (floorlog 2 ?m))"
  have fx: "fin x" and fy: "fin y"
    using x y by (simp_all add: bnd_def)
  have m: "0 < ?m"
    using fx fy by (simp add: fin_def)
  have z: "z = setExpAndRound p ng ?m ?e False"
    by (simp add: z_def umul_def Let_def)
  have V: "mag x * mag y = (real ?m + 0) * 2 powi (?e - int (floorlog 2 ?m))"
  proof -
    have "?e - int (floorlog 2 ?m)
        = (expn x - int (floorlog 2 (mant x))) + (expn y - int (floorlog 2 (mant y)))"
      by simp
    then show ?thesis
      by (simp only: mag_def power_int_add) (simp add: power_int_add)
  qed
  have lo: "2 powi (A + C) \<le> mag x * mag y"
  proof -
    have "(2::real) powi (A + C) = 2 powi A * 2 powi C"
      by (simp add: power_int_add)
    also have "\<dots> \<le> mag x * mag y"
    proof (rule mult_mono)
      show "2 powi A \<le> mag x" using x by (simp add: bnd_def)
      show "2 powi C \<le> mag y" using y by (simp add: bnd_def)
      show "0 \<le> mag x" using bnd_pos [OF x] by simp
      show "(0::real) \<le> 2 powi C" by simp
    qed
    finally show ?thesis .
  qed
  have hi: "mag x * mag y < 2 powi (B + D)"
  proof -
    have "mag x * mag y < 2 powi B * 2 powi D"
    proof (rule mult_strict_mono)
      show "mag x < 2 powi B" using x by (simp add: bnd_def)
      show "mag y < 2 powi D" using y by (simp add: bnd_def)
      show "(0::real) < 2 powi B" by simp
      show "0 \<le> mag y" using bnd_pos [OF y] by simp
    qed
    also have "\<dots> = 2 powi (B + D)"
      by (simp add: power_int_add)
    finally show ?thesis .
  qed
  note r = setExpAndRound_val [where m = ?m and p = p and f = 0 and sbit = False and ng = ng
      and e = ?e and V = "mag x * mag y" and A = "A + C" and B = "B + D", folded z,
      OF m p _ _ _ _ V lo hi rng]
  have r1: "fin z" and r2: "prec z = p" and r3: "neg z = ng"
    and r4: "\<bar>mag z - mag x * mag y\<bar> \<le> mag x * mag y / 2 ^ p"
    and r5: "2 powi (A + C - 1) \<le> mag z" and r6: "mag z < 2 powi (B + D + 1)"
    by (rule r; simp)+
  show "bnd z (A + C - 1) (B + D + 1)"
    using r1 r5 r6 by (simp add: bnd_def)
  show "prec z = p" "neg z = ng" "\<bar>mag z - mag x * mag y\<bar> \<le> mag x * mag y / 2 ^ p"
    by (rule r2 r3 r4)+
qed


lemma uquo_quot_big:
  fixes mx my p :: nat
  assumes mx: "0 < mx" and my: "0 < my"
  defines "d \<equiv> nat (int p + 1 + int (floorlog 2 my) - int (floorlog 2 mx))"
  shows "2 ^ p \<le> mx * 2 ^ d div my"
proof -
  let ?lx = "floorlog 2 mx" and ?ly = "floorlog 2 my"
  note bx = floorlog2_bounds [OF mx] and by' = floorlog2_bounds [OF my]
  have "int p + 1 + int ?ly - int ?lx \<le> int d"
    by (simp add: d_def)
  then have le: "p + ?ly \<le> ?lx - 1 + d"
    using bx(3) by linarith
  have "2 ^ p * my \<le> 2 ^ p * 2 ^ ?ly"
    using by'(2) by simp
  also have "\<dots> = 2 ^ (p + ?ly)"
    by (simp add: power_add)
  also have "\<dots> \<le> 2 ^ (?lx - 1 + d)"
    using le by (intro power_increasing) simp_all
  also have "\<dots> = 2 ^ (?lx - 1) * 2 ^ d"
    by (simp add: power_add)
  also have "\<dots> \<le> mx * 2 ^ d"
    using bx(1) by simp
  finally have "2 ^ p * my \<le> mx * 2 ^ d" .
  then have "2 ^ p * my div my \<le> mx * 2 ^ d div my"
    by (rule div_le_mono)
  then show ?thesis
    using my by simp
qed

lemma uquo_val:
  fixes x y :: Float and p :: nat and ng :: bool
  assumes x: "bnd x A B" and y: "bnd y C D" and p: "0 < p"
    and rng: "MinExp \<le> A - D + 1" "B - C < MaxExp"
  defines "z \<equiv> uquo p ng x y"
  shows "bnd z (A - D - 1) (B - C + 1)" and "prec z = p" and "neg z = ng"
    and "\<bar>mag z - mag x / mag y\<bar> \<le> mag x / mag y / 2 ^ p"
proof -
  let ?lx = "floorlog 2 (mant x)" and ?ly = "floorlog 2 (mant y)"
  define d where "d = nat (int p + 1 + int ?ly - int ?lx)"
  define q where "q = mant x * 2 ^ d div mant y"
  define r where "r = mant x * 2 ^ d mod mant y"
  define f where "f = real r / real (mant y)"
  define E where "E = (expn x - int ?lx) - (expn y - int ?ly)"
  let ?e = "E - int d + int (floorlog 2 q)"
  have fx: "fin x" and fy: "fin y"
    using x y by (simp_all add: bnd_def)
  have mx: "0 < mant x" and my: "0 < mant y"
    using fx fy by (simp_all add: fin_def)
  have z: "z = setExpAndRound p ng q ?e (r \<noteq> 0)"
    by (simp add: z_def uquo_def Let_def d_def q_def r_def E_def)
  have qbig: "2 ^ p \<le> q"
    unfolding q_def d_def by (rule uquo_quot_big [OF mx my])
  have q: "0 < q"
    using qbig by (metis gr0I not_le zero_less_numeral zero_less_power)
  have big: "p < floorlog 2 q"
  proof -
    have "p + 1 \<le> floorlog 2 q"
      using qbig by (intro floorlog_geI) simp_all
    then show ?thesis by simp
  qed
  have f: "0 \<le> f" "f < 1"
    using my by (simp_all add: f_def r_def)
  have sb: "(r \<noteq> 0) \<longleftrightarrow> 0 < f"
    using my by (simp add: f_def zero_less_divide_iff)
  have "mant x * 2 ^ d = q * mant y + r"
    by (simp add: q_def r_def)
  then have "real (mant x * 2 ^ d) = real (q * mant y + r)"
    by simp
  then have qf: "real q + f = real (mant x) * 2 ^ d / real (mant y)"
    using my by (simp add: f_def field_simps)
  have me: "mag x / mag y = real (mant x) / real (mant y) * 2 powi E"
  proof -
    have "(2::real) powi E = 2 powi (expn x - int ?lx) / 2 powi (expn y - int ?ly)"
      unfolding E_def by (rule power_int_diff) simp
    then show ?thesis
      by (simp only: mag_def times_divide_times_eq)
  qed
  have V: "mag x / mag y = (real q + f) * 2 powi (?e - int (floorlog 2 q))"
  proof -
    have "?e - int (floorlog 2 q) = E - int d" by simp
    then have "(real q + f) * 2 powi (?e - int (floorlog 2 q))
        = real (mant x) * 2 ^ d / real (mant y) * (2 powi E / 2 ^ d)"
      by (simp only: qf powi_diff_nat)
    also have "\<dots> = real (mant x) / real (mant y) * 2 powi E"
      by simp
    finally show ?thesis by (simp only: me)
  qed
  have lo: "2 powi (A - D) \<le> mag x / mag y"
  proof -
    have "(2::real) powi A / 2 powi D \<le> mag x / mag y"
    proof (rule frac_le)
      show "0 \<le> mag x" using bnd_pos [OF x] by simp
      show "2 powi A \<le> mag x" using x by (simp add: bnd_def)
      show "0 < mag y" by (rule bnd_pos [OF y])
      show "mag y \<le> 2 powi D" using y by (simp add: bnd_def)
    qed
    then show ?thesis by (simp add: power_int_diff)
  qed
  have hi: "mag x / mag y < 2 powi (B - C)"
  proof -
    have "mag x / mag y < 2 powi B / 2 powi C"
    proof (rule frac_less)
      show "0 \<le> mag x" using bnd_pos [OF x] by simp
      show "mag x < 2 powi B" using x by (simp add: bnd_def)
      show "(0::real) < 2 powi C" by simp
      show "2 powi C \<le> mag y" using y by (simp add: bnd_def)
    qed
    then show ?thesis by (simp add: power_int_diff)
  qed
  have big': "r \<noteq> 0 \<longrightarrow> p < floorlog 2 q"
    using big by simp
  note r = setExpAndRound_val [where m = q and p = p and f = f and sbit = "r \<noteq> 0" and ng = ng
      and e = ?e and V = "mag x / mag y" and A = "A - D" and B = "B - C", folded z,
      OF q p f sb big' V lo hi rng]
  have r1: "fin z" and r2: "prec z = p" and r3: "neg z = ng"
    and r4: "\<bar>mag z - mag x / mag y\<bar> \<le> mag x / mag y / 2 ^ p"
    and r5: "2 powi (A - D - 1) \<le> mag z" and r6: "mag z < 2 powi (B - C + 1)"
    by (rule r)+
  show "bnd z (A - D - 1) (B - C + 1)"
    using r1 r5 r6 by (simp add: bnd_def)
  show "prec z = p" "neg z = ng" "\<bar>mag z - mag x / mag y\<bar> \<le> mag x / mag y / 2 ^ p"
    by (rule r2 r3 r4)+
qed






lemma SetInt_step1:
  fixes x :: int and n :: nat
  assumes x: "0 < x" "x < 2 ^ n" and n: "n < 2147483648"
  shows "SetInt x = setExpAndRound (max (BitLen x) 64) False (nat x) (int (BitLen x)) False"
proof -
  have nx: "0 < nat x" "nat \<bar>x\<bar> = nat x"
    using x by simp_all
  have "nat x < 2 ^ n"
    using x by (simp add: nat_less_iff)
  then have bl: "BitLen x \<le> n"
    by (simp add: BitLen_def nx floorlog_le_iff)
  have md: "BitLen x mod 4294967296 = BitLen x"
    using bl n by simp
  have x0: "x \<noteq> 0" "\<not> x < 0" using x by simp_all
  show ?thesis
    unfolding SetInt_def Let_def by (simp add: md nx x0)
qed


lemma SetInt_eq:
  fixes x :: int and n :: nat
  assumes x: "0 < x" "x < 2 ^ n" and n: "n < 2147483648"
  shows "SetInt x = mkfinite (max (BitLen x) 64) False (nat x) (int (BitLen x))"
    and "BitLen x \<le> n" and "floorlog 2 (nat x) = BitLen x"
proof -
  have nx: "0 < nat x" "nat \<bar>x\<bar> = nat x"
    using x by simp_all
  have "nat x < 2 ^ n"
    using x by (simp add: nat_less_iff)
  then show bl: "BitLen x \<le> n"
    by (simp add: BitLen_def nx floorlog_le_iff)
  show fl: "floorlog 2 (nat x) = BitLen x"
    by (simp add: BitLen_def nx)
  have e: "\<not> int (BitLen x) < MinExp" "\<not> int (BitLen x) > MaxExp"
    using bl n by (simp_all add: MinExp_def MaxExp_def)
  have sel: "form (mkfinite (max (BitLen x) 64) False (nat x) (int (BitLen x))) = form_finite"
    "mant (mkfinite (max (BitLen x) 64) False (nat x) (int (BitLen x))) = nat x"
    "prec (mkfinite (max (BitLen x) 64) False (nat x) (int (BitLen x))) = max (BitLen x) 64"
    by (simp_all add: mkfinite_def)
  have le: "floorlog 2 (nat x) \<le> max (BitLen x) 64"
    unfolding fl by simp
  have "setExpAndRound (max (BitLen x) 64) False (nat x) (int (BitLen x)) False
      = mkfinite (max (BitLen x) 64) False (nat x) (int (BitLen x))"
    unfolding setExpAndRound_def Float_round_def Let_def sel
    by (simp only: e le if_False if_True simp_thms)
  then show "SetInt x = mkfinite (max (BitLen x) 64) False (nat x) (int (BitLen x))"
    by (simp only: SetInt_step1 [OF x n])
qed


lemma bnd_weaken: "bnd x A B \<Longrightarrow> A' \<le> A \<Longrightarrow> B \<le> B' \<Longrightarrow> bnd x A' B'"
proof -
  assume b: "bnd x A B" and a: "A' \<le> A" "B \<le> B'"
  have "(2::real) powi A' \<le> 2 powi A"
    using a(1) by (intro power_int_increasing) simp_all
  moreover have "(2::real) powi B \<le> 2 powi B'"
    using a(2) by (intro power_int_increasing) simp_all
  ultimately show ?thesis
    using b unfolding bnd_def by linarith
qed

lemma SetInt_val:
  fixes x :: int and n :: nat
  assumes x: "0 < x" "x < 2 ^ n" and n: "n < 2147483648"
  shows "bnd (SetInt x) 0 (int n)" and "mag (SetInt x) = real_of_int x"
    and "\<not> neg (SetInt x)" and "prec (SetInt x) = max (BitLen x) 64"
proof -
  note z = SetInt_eq(1) [OF x n] and fl = SetInt_eq(3) [OF x n]
  show m: "mag (SetInt x) = real_of_int x"
    using x by (simp add: z mag_def mkfinite_def fl)
  show "\<not> neg (SetInt x)" "prec (SetInt x) = max (BitLen x) 64"
    by (simp_all add: z mkfinite_def)
  have f: "fin (SetInt x)"
    using x by (simp add: z fin_def mkfinite_def)
  have "real_of_int x < 2 ^ n"
    using x(2) by (metis of_int_less_iff of_int_numeral of_int_power)
  moreover have "1 \<le> real_of_int x"
    using x(1) by simp
  ultimately show "bnd (SetInt x) 0 (int n)"
    using f by (simp add: bnd_def m)
qed

lemma Mul_fin:
  "fin x \<Longrightarrow> fin y \<Longrightarrow> Mul x y = Inr (umul (max (prec x) (prec y)) (neg x \<noteq> neg y) x y)"
  by (simp add: Mul_def fin_def Let_def)

lemma Quo_fin:
  "fin x \<Longrightarrow> fin y \<Longrightarrow> Quo x y = Inr (uquo (max (prec x) (prec y)) (neg x \<noteq> neg y) x y)"
  by (simp add: Quo_def fin_def Let_def)

lemma rel_weaken: "rel a b e \<Longrightarrow> e \<le> e' \<Longrightarrow> 0 \<le> b \<Longrightarrow> rel a b e'"
proof -
  assume r: "rel a b e" and e: "e \<le> e'" and b: "0 \<le> b"
  have "b * e \<le> b * e'"
    using e b by (rule mult_left_mono)
  with r show ?thesis unfolding rel_def by linarith
qed

lemma rel_of_err:
  assumes "\<bar>a - b\<bar> \<le> b / 2 ^ p" and "n \<le> p" and "0 \<le> b"
  shows "rel a b (1 / 2 ^ n)"
proof -
  have "(2::real) ^ n \<le> 2 ^ p"
    using assms(2) by (intro power_increasing) simp_all
  then have "b / 2 ^ p \<le> b / 2 ^ n"
    using assms(3) by (intro divide_left_mono) simp_all
  with assms(1) show ?thesis by (simp add: rel_def)
qed

lemma rel_scale:
  assumes ab: "rel a b e1" and c: "rel c (a * t) e2"
    and b: "0 \<le> b" and t: "0 \<le> t" and e: "0 \<le> e1" "0 \<le> e2"
  shows "rel c (b * t) (e1 + e2 + e1 * e2)"
proof -
  have a: "a \<le> b + b * e1" "\<bar>a - b\<bar> \<le> b * e1"
    using ab unfolding rel_def by linarith+
  have "a * t * e2 \<le> (b + b * e1) * t * e2"
    using a(1) t e by (intro mult_right_mono) simp_all
  moreover have "\<bar>a * t - b * t\<bar> \<le> b * e1 * t"
  proof -
    have "\<bar>a * t - b * t\<bar> = \<bar>a - b\<bar> * t"
      using t by (simp add: abs_mult left_diff_distrib [symmetric])
    also have "\<dots> \<le> b * e1 * t"
      using a(2) t by (rule mult_right_mono)
    finally show ?thesis .
  qed
  moreover have "\<bar>c - a * t\<bar> \<le> a * t * e2"
    using c by (simp add: rel_def)
  ultimately have "\<bar>c - b * t\<bar> \<le> (b + b * e1) * t * e2 + b * e1 * t"
    by linarith
  also have "\<dots> = b * t * (e1 + e2 + e1 * e2)"
    by (simp add: algebra_simps)
  finally show ?thesis by (simp add: rel_def)
qed

lemma rel_square:
  assumes ab: "rel a b e" and a: "0 \<le> a" and b: "0 \<le> b" and e: "0 \<le> e"
  shows "rel (a * a) (b * b) (2 * e + e * e)"
proof -
  have r: "rel (a * a) (a * b) e"
  proof -
    have "\<bar>a * a - a * b\<bar> = a * \<bar>a - b\<bar>"
      using a by (simp add: abs_mult right_diff_distrib [symmetric])
    also have "\<dots> \<le> a * (b * e)"
      using ab a unfolding rel_def by (rule mult_left_mono)
    finally show ?thesis by (simp add: rel_def algebra_simps)
  qed
  have "rel (a * a) (b * b) (e + e + e * e)"
    by (rule rel_scale [OF ab r b b e e])
  then show ?thesis by (simp add: algebra_simps)
qed

lemma sint_sub_64:
  fixes a b :: "64 word"
  assumes "- (2 ^ 63) \<le> sint a - sint b" and "sint a - sint b < 2 ^ 63"
  shows "sint (a - b) = sint a - sint b"
  using assms by (simp add: sint_word_ariths signed_take_bit_int_eq_self)

lemma sint_neg_64:
  fixes a :: "64 word"
  assumes "- (2 ^ 63) < sint a"
  shows "sint (- a) = - sint a"
proof -
  have "sint a < 2 ^ 63"
    using sint_lt [of a] by simp
  with assms show ?thesis
    by (simp add: sint_word_ariths signed_take_bit_int_eq_self)
qed

lemma sless_0_64:
  fixes a :: "64 word"
  shows "0 <s a \<longleftrightarrow> 0 < sint a" and "a <s 0 \<longleftrightarrow> sint a < 0"
  by (simp_all add: word_sless_alt)

lemma pow10_bound: "(10::int) ^ k < 2 ^ (4 * k + 1)"
proof -
  have "(10::int) ^ k \<le> 16 ^ k"
    by (intro power_mono) simp_all
  also have "(16::int) ^ k = 2 ^ (4 * k)"
    by (simp add: power_mult)
  also have "\<dots> < 2 ^ (4 * k + 1)"
    by simp
  finally show ?thesis .
qed

lemma dv_val:
  "bnd (SetInt (Exp 2 96)) 96 97" "prec (SetInt (Exp 2 96)) = 97" "\<not> neg (SetInt (Exp 2 96))"
  "mag (SetInt (Exp 2 96)) = 2 ^ 96"
proof -
  have e: "Exp 2 96 = 2 ^ 96"
    by (simp add: Exp_def)
  have x: "(0::int) < 2 ^ 96" "(2::int) ^ 96 < 2 ^ 97" and n: "(97::nat) < 2147483648"
    by simp_all
  note v = SetInt_val [OF x n]
  have bl: "max (BitLen (2 ^ 96)) 64 = 97"
    by (simp add: BitLen_def compute_floorlog)
  show m: "mag (SetInt (Exp 2 96)) = 2 ^ 96"
    unfolding e using v(2) by simp
  show "prec (SetInt (Exp 2 96)) = 97"
    unfolding e v(4) by (rule bl)
  show "\<not> neg (SetInt (Exp 2 96))"
    unfolding e by (rule v(3))
  have "fin (SetInt (Exp 2 96))"
    unfolding e using v(1) by (simp add: bnd_def)
  then show "bnd (SetInt (Exp 2 96)) 96 97"
    by (simp add: bnd_def m)
qed


lemma rel_num1: "2 * (1 / 2 ^ 97) + 1 / 2 ^ 97 * (1 / 2 ^ 97) + 1 / 2 ^ 97
    + (2 * (1 / 2 ^ 97) + 1 / 2 ^ 97 * (1 / 2 ^ 97)) * (1 / 2 ^ 97) \<le> (5 / 2 ^ 97 :: real)"
  by simp

lemma rel_num2: "5 / 2 ^ 97 + 1 / 2 ^ 97 + 5 / 2 ^ 97 * (1 / 2 ^ 97) \<le> (1 / 2 ^ 94 :: real)"
  by simp

lemma rel_num3: "(5 / 2 ^ 97 :: real) \<le> 1 / 2 ^ 94"
  by simp

lemma uniswap_core:
  fixes s :: int
  assumes s: "0 < s" "s < 2 ^ 160"
  shows "\<exists>q pr. Quo (SetInt s) (SetInt (Exp 2 96)) = Inr q \<and> Mul q q = Inr pr
           \<and> bnd pr (- 197) 131 \<and> 97 \<le> prec pr \<and> \<not> neg pr
           \<and> rel (mag pr) ((real_of_int s / 2 ^ 96) * (real_of_int s / 2 ^ 96)) (5 / 2 ^ 97)"
proof -
  let ?x = "SetInt s" and ?d = "SetInt (Exp 2 96)"
  let ?V = "real_of_int s / 2 ^ 96"
  have n: "(160::nat) < 2147483648" by simp
  note x = SetInt_val [OF s n]
  note d = dv_val
  have fx: "fin ?x" and fd: "fin ?d"
    using x(1) d(1) by (simp_all add: bnd_def)
  define P where "P = max (prec ?x) (prec ?d)"
  have P: "97 \<le> P" "0 < P"
    by (simp_all add: P_def d(2))
  define q where "q = uquo P False ?x ?d"
  have Q: "Quo ?x ?d = Inr q"
    using x(3) d(3) by (simp add: Quo_fin [OF fx fd] q_def P_def)
  have x': "bnd ?x 0 160" using x(1) by simp
  have r1: "MinExp \<le> 0 - 97 + 1" "160 - 96 < MaxExp"
    by (simp_all add: MinExp_def MaxExp_def)
  note uq = uquo_val [OF x' d(1) P(2) r1, of False, folded q_def]
  have bq: "bnd q (- 98) 65" using uq(1) by simp
  have fq: "fin q" using bq by (simp add: bnd_def)
  have Vpos: "0 \<le> ?V" using s by simp
  have mq: "mag ?x / mag ?d = ?V"
    by (simp add: x(2) d(4))
  have relq: "rel (mag q) ?V (1 / 2 ^ 97)"
    using uq(4) unfolding mq by (rule rel_of_err [OF _ P(1) Vpos])
  define pr where "pr = umul P False q q"
  have M: "Mul q q = Inr pr"
    by (simp add: Mul_fin [OF fq fq] pr_def uq(2))
  have r2: "MinExp \<le> - 98 + - 98 + 1" "65 + 65 < MaxExp"
    by (simp_all add: MinExp_def MaxExp_def)
  note um = umul_val [OF bq bq P(2) r2, of False, folded pr_def]
  have bp: "bnd pr (- 197) 131" using um(1) by simp
  have qpos: "0 \<le> mag q" using bnd_pos [OF bq] by simp
  have relp: "rel (mag pr) (mag q * mag q * 1) (1 / 2 ^ 97)"
    using um(4) by (intro rel_of_err [OF _ P(1)]) (simp_all add: qpos)
  have relsq: "rel (mag q * mag q) (?V * ?V) (2 * (1 / 2 ^ 97) + 1 / 2 ^ 97 * (1 / 2 ^ 97))"
    by (rule rel_square [OF relq qpos Vpos]) simp
  have "rel (mag pr) (?V * ?V * 1) (2 * (1 / 2 ^ 97) + 1 / 2 ^ 97 * (1 / 2 ^ 97) + 1 / 2 ^ 97
    + (2 * (1 / 2 ^ 97) + 1 / 2 ^ 97 * (1 / 2 ^ 97)) * (1 / 2 ^ 97))"
    by (rule rel_scale [OF relsq relp]) (simp_all add: Vpos)
  then have "rel (mag pr) (?V * ?V * 1) (5 / 2 ^ 97)"
    by (rule rel_weaken [OF _ rel_num1]) (simp add: Vpos)
  then have "rel (mag pr) (?V * ?V) (5 / 2 ^ 97)"
    by simp
  with Q M bp P(1) um(2) um(3) show ?thesis
    by blast
qed


lemma adj_val:
  fixes k :: nat
  assumes "k \<le> 100000000"
  shows "bnd (SetInt (10 ^ k)) 0 (4 * int k + 1)" and "mag (SetInt (10 ^ k)) = 10 ^ k"
    and "\<not> neg (SetInt (10 ^ k))" and "64 \<le> prec (SetInt (10 ^ k))"
proof -
  have x: "(0::int) < 10 ^ k" "(10::int) ^ k < 2 ^ (4 * k + 1)"
    using pow10_bound [of k] by simp_all
  have n: "4 * k + 1 < 2147483648"
    using assms by simp
  note v = SetInt_val [OF x n]
  show "bnd (SetInt (10 ^ k)) 0 (4 * int k + 1)"
    using v(1) by (simp add: add.commute)
  show "mag (SetInt (10 ^ k)) = 10 ^ k"
    using v(2) by simp
  show "\<not> neg (SetInt (10 ^ k))"
    by (rule v(3))
  show "64 \<le> prec (SetInt (10 ^ k))"
    unfolding v(4) by simp
qed

lemma uniswapPrice_unfold:
  assumes Q: "Quo (SetInt (SqrtPriceX96 event)) (SetInt (Exp 2 96)) = Inr q"
    and M: "Mul q q = Inr pr"
    and d: "\<bar>sint (Decimals0 pool) - sint (Decimals1 pool)\<bar> \<le> 100000000"
    and D: "D = sint (Decimals0 pool) - sint (Decimals1 pool)"
  shows "uniswapPrice event pool =
     (if 0 < D then Mul pr (SetInt (10 ^ nat D))
      else if D < 0 then Quo pr (SetInt (10 ^ nat (- D)))
      else Inr pr)"
proof -
  have sD: "sint (Decimals0 pool - Decimals1 pool) = D"
    unfolding D using d by (intro sint_sub_64) simp_all
  have sN: "sint (- (Decimals0 pool - Decimals1 pool)) = - D"
    using d sD D by (subst sint_neg_64) simp_all
  show ?thesis
    unfolding uniswapPrice_def Let_def Q bindE_def sum.case M sless_0_64 sD sN
    by (simp add: Exp_def)
qed

lemma uniswap_val:
  assumes s: "0 < SqrtPriceX96 event" "SqrtPriceX96 event < 2 ^ 160"
    and d: "\<bar>sint (Decimals0 pool) - sint (Decimals1 pool)\<bar> \<le> 100000000"
  shows "\<exists>pr. uniswapPrice event pool = Inr pr
           \<and> bnd pr (- 500000000) 500000000 \<and> 97 \<le> prec pr \<and> \<not> neg pr
           \<and> rel (mag pr)
                ((real_of_int (SqrtPriceX96 event) / 2 ^ 96) * (real_of_int (SqrtPriceX96 event) / 2 ^ 96)
                   * 10 powi (sint (Decimals0 pool) - sint (Decimals1 pool)))
                (1 / 2 ^ 94)"
proof -
  define D where "D = sint (Decimals0 pool) - sint (Decimals1 pool)"
  let ?V = "real_of_int (SqrtPriceX96 event) / 2 ^ 96"
  from uniswap_core [OF s] obtain q pr where
    Q: "Quo (SetInt (SqrtPriceX96 event)) (SetInt (Exp 2 96)) = Inr q" and
    M: "Mul q q = Inr pr" and bp: "bnd pr (- 197) 131" and pp: "97 \<le> prec pr" and
    np: "\<not> neg pr" and rp: "rel (mag pr) (?V * ?V) (5 / 2 ^ 97)"
    by blast
  note u = uniswapPrice_unfold [OF Q M d D_def]
  have fp: "fin pr" using bp by (simp add: bnd_def)
  have VV: "0 \<le> ?V * ?V" by simp
  have e5: "(0::real) \<le> 5 / 2 ^ 97" "(0::real) \<le> 1 / 2 ^ 97" by simp_all
  have dD: "\<bar>D\<bar> \<le> 100000000" using d by (simp add: D_def)
  consider (pos) "0 < D" | (neg) "D < 0" | (zero) "D = 0"
    by linarith
  then have "\<exists>z. uniswapPrice event pool = Inr z
           \<and> bnd z (- 500000000) 500000000 \<and> 97 \<le> prec z \<and> \<not> neg z
           \<and> rel (mag z) (?V * ?V * 10 powi D) (1 / 2 ^ 94)"
  proof cases
    case pos
    define k where "k = nat D"
    have k: "k \<le> 100000000" "D = int k"
      using pos dD by (simp_all add: k_def)
    note a = adj_val [OF k(1)]
    have fa: "fin (SetInt (10 ^ k))" using a(1) by (simp add: bnd_def)
    define P where "P = max (prec pr) (prec (SetInt (10 ^ k)))"
    have P: "97 \<le> P" "0 < P" using pp by (simp_all add: P_def)
    define z where "z = umul P False pr (SetInt (10 ^ k))"
    have U: "uniswapPrice event pool = Inr z"
      using pos np a(3) by (simp add: u k_def [symmetric] Mul_fin [OF fp fa] z_def P_def)
    have r: "MinExp \<le> - 197 + 0 + 1" "131 + (4 * int k + 1) < MaxExp"
      using k(1) by (simp_all add: MinExp_def MaxExp_def)
    note um = umul_val [OF bp a(1) P(2) r, of False, folded z_def]
    have bz: "bnd z (- 500000000) 500000000"
      using k(1) by (intro bnd_weaken [OF um(1)]) simp_all
    have "rel (mag z) (mag pr * 10 ^ k) (1 / 2 ^ 97)"
      using um(4) unfolding a(2) using bnd_pos [OF bp]
      by (intro rel_of_err [OF _ P(1)]) simp_all
    with rp have "rel (mag z) (?V * ?V * 10 ^ k) (5 / 2 ^ 97 + 1 / 2 ^ 97 + 5 / 2 ^ 97 * (1 / 2 ^ 97))"
      by (rule rel_scale [OF _ _ VV _ e5]) simp
    then have "rel (mag z) (?V * ?V * 10 ^ k) (1 / 2 ^ 94)"
      by (rule rel_weaken [OF _ rel_num2]) simp
    then have "rel (mag z) (?V * ?V * 10 powi D) (1 / 2 ^ 94)"
      by (simp add: k(2))
    with U bz P(1) um(2) um(3) show ?thesis by blast
  next
    case neg
    define k where "k = nat (- D)"
    have k: "k \<le> 100000000" "D = - int k"
      using neg dD by (simp_all add: k_def)
    note a = adj_val [OF k(1)]
    have fa: "fin (SetInt (10 ^ k))" using a(1) by (simp add: bnd_def)
    define P where "P = max (prec pr) (prec (SetInt (10 ^ k)))"
    have P: "97 \<le> P" "0 < P" using pp by (simp_all add: P_def)
    define z where "z = uquo P False pr (SetInt (10 ^ k))"
    have U: "uniswapPrice event pool = Inr z"
      using neg np a(3) by (simp add: u k_def [symmetric] Quo_fin [OF fp fa] z_def P_def)
    have r: "MinExp \<le> - 197 - (4 * int k + 1) + 1" "131 - 0 < MaxExp"
      using k(1) by (simp_all add: MinExp_def MaxExp_def)
    note uq = uquo_val [OF bp a(1) P(2) r, of False, folded z_def]
    have bz: "bnd z (- 500000000) 500000000"
      using k(1) by (intro bnd_weaken [OF uq(1)]) simp_all
    have "rel (mag z) (mag pr / 10 ^ k) (1 / 2 ^ 97)"
      using uq(4) unfolding a(2) using bnd_pos [OF bp]
      by (intro rel_of_err [OF _ P(1)]) simp_all
    then have "rel (mag z) (mag pr * (1 / 10 ^ k)) (1 / 2 ^ 97)"
      by simp
    with rp have "rel (mag z) (?V * ?V * (1 / 10 ^ k))
        (5 / 2 ^ 97 + 1 / 2 ^ 97 + 5 / 2 ^ 97 * (1 / 2 ^ 97))"
      by (rule rel_scale [OF _ _ VV _ e5]) simp
    then have "rel (mag z) (?V * ?V * (1 / 10 ^ k)) (1 / 2 ^ 94)"
      by (rule rel_weaken [OF _ rel_num2]) simp
    moreover have "(10::real) powi D = 1 / 10 ^ k"
      by (simp add: k(2) power_int_minus_divide)
    ultimately have "rel (mag z) (?V * ?V * 10 powi D) (1 / 2 ^ 94)"
      by simp
    with U bz P(1) uq(2) uq(3) show ?thesis by blast
  next
    case zero
    have U: "uniswapPrice event pool = Inr pr"
      using zero by (simp add: u)
    have bz: "bnd pr (- 500000000) 500000000"
      by (intro bnd_weaken [OF bp]) simp_all
    have "rel (mag pr) (?V * ?V) (1 / 2 ^ 94)"
      using rp by (rule rel_weaken [OF _ rel_num3]) simp
    then have "rel (mag pr) (?V * ?V * 10 powi D) (1 / 2 ^ 94)"
      by (simp add: zero)
    with U bz pp np show ?thesis by blast
  qed
  then show ?thesis by (simp only: D_def)
qed

section \<open>The price decoded from a Uniswap event\<close>

lemma bnd_fin: "bnd x A B \<Longrightarrow> fin x"
  by (simp add: bnd_def)

lemma uniswap_zero:
  assumes s: "SqrtPriceX96 event = 0"
    and d: "\<bar>sint (Decimals0 pool) - sint (Decimals1 pool)\<bar> \<le> 100000000"
  shows "\<exists>pr. uniswapPrice event pool = Inr pr \<and> form pr = form_zero"
proof -
  define D where "D = sint (Decimals0 pool) - sint (Decimals1 pool)"
  have z0: "SetInt 0 = mkzero 64 False"
    by (simp add: SetInt_def BitLen_def Let_def floorlog_def)
  have fd: "form (SetInt (Exp 2 96)) = form_finite"
    using dv_val(1) by (simp add: bnd_def fin_def)
  have Q: "Quo (SetInt (SqrtPriceX96 event)) (SetInt (Exp 2 96)) = Inr (mkzero 97 False)"
    unfolding s z0 Quo_def Let_def by (simp add: fd dv_val(2) dv_val(3) mkzero_def)
  have M: "Mul (mkzero 97 False) (mkzero 97 False) = Inr (mkzero 97 False)"
    by (simp add: Mul_def Let_def mkzero_def)
  note u = uniswapPrice_unfold [OF Q M d D_def]
  have dD: "\<bar>D\<bar> \<le> 100000000" using d by (simp add: D_def)
  have a: "form (SetInt (10 ^ k)) = form_finite" if "k \<le> 100000000" for k :: nat
    using adj_val(1) [OF that] by (simp add: bnd_def fin_def)
  have k: "nat D \<le> 100000000" "nat (- D) \<le> 100000000"
    using dD by simp_all
  have mz: "\<exists>pr. Mul (mkzero 97 False) y = Inr pr \<and> form pr = form_zero"
    if "form y = form_finite" for y
    using that by (simp add: Mul_def Let_def mkzero_def)
  have qz: "\<exists>pr. Quo (mkzero 97 False) y = Inr pr \<and> form pr = form_zero"
    if "form y = form_finite" for y
    using that by (simp add: Quo_def Let_def mkzero_def)
  have zz: "form (mkzero 97 False) = form_zero"
    by (simp add: mkzero_def)
  show ?thesis
    unfolding u using mz [OF a [OF k(1)]] qz [OF a [OF k(2)]] zz by (simp only: split: if_splits) blast
qed

text \<open>
  C5, counterexample.  With equal decimals the Swap event with sqrtPriceX96 = 2^96 + 1
  decodes to \<open>1 + 2 / 2 ^ 96\<close>: the square \<open>1 + 2 / 2 ^ 96 + 1 / 2 ^ 192\<close> does not fit the
  97 bits of the product's mantissa and is rounded.
\<close>

theorem uniswap_price_is_rounded:
  "uniswapPrice (swap (2 ^ 96 + 1)) pool1 = Inr price_odd
   \<and> valF price_odd = 1 + 2 / 2 ^ 96
   \<and> (real_of_int (2 ^ 96 + 1) / 2 ^ 96)\<^sup>2
        * 10 powi (sint (Decimals0 pool1) - sint (Decimals1 pool1)) = 1 + 2 / 2 ^ 96 + 1 / 2 ^ 192
   \<and> valF price_odd \<noteq> (real_of_int (2 ^ 96 + 1) / 2 ^ 96)\<^sup>2
        * 10 powi (sint (Decimals0 pool1) - sint (Decimals1 pool1))"
proof -
  have 1: "uniswapPrice (swap (2 ^ 96 + 1)) pool1 = Inr price_odd"
    by (simp add: uniswapPrice_def swap_def price_odd_def float_eval sample_eval word_sless_alt)
  have 2: "valF price_odd = 1 + 2 / 2 ^ 96"
    by (simp add: valF_def mag_def price_odd_def mkfinite_def compute_floorlog)
  have 3: "(real_of_int (2 ^ 96 + 1) / 2 ^ 96)\<^sup>2
        * 10 powi (sint (Decimals0 pool1) - sint (Decimals1 pool1)) = 1 + 2 / 2 ^ 96 + 1 / 2 ^ 192"
    by (simp add: pool1_def power2_eq_square)
  have 4: "valF price_odd \<noteq> (real_of_int (2 ^ 96 + 1) / 2 ^ 96)\<^sup>2
        * 10 powi (sint (Decimals0 pool1) - sint (Decimals1 pool1))"
    unfolding 2 3 by simp
  from 1 2 3 4 show ?thesis by blast
qed

text \<open>
  C5, amended.  For a sqrtPriceX96 of the event's type (an unsigned 160-bit integer) and
  decimals that differ by at most 10^8, the decoded price is
  \<open>(sqrtPriceX96 / 2 ^ 96)\<^sup>2 * 10 ^ (decimals0 - decimals1)\<close> up to the rounding of the Float
  operations: the relative error is at most \<open>2 ^ -94\<close>.  The power of ten has the sign of
  the exponent: a product with \<open>10 ^ (decimals0 - decimals1)\<close> when decimals0 is greater, a
  quotient by \<open>10 ^ (decimals1 - decimals0)\<close> when it is smaller, no adjustment when they
  are equal.
\<close>

theorem uniswap_price_value:
  assumes "0 \<le> SqrtPriceX96 event" and "SqrtPriceX96 event < 2 ^ 160"
    and "\<bar>sint (Decimals0 pool) - sint (Decimals1 pool)\<bar> \<le> 100000000"
    and "F = (real_of_int (SqrtPriceX96 event) / 2 ^ 96)\<^sup>2
               * 10 powi (sint (Decimals0 pool) - sint (Decimals1 pool))"
  shows "\<exists>price. uniswapPrice event pool = Inr price \<and> \<bar>valF price - F\<bar> \<le> F / 2 ^ 94"
proof (cases "SqrtPriceX96 event = 0")
  case True
  from uniswap_zero [OF True assms(3)] obtain pr where
    "uniswapPrice event pool = Inr pr" "form pr = form_zero"
    by blast
  then show ?thesis
    using True by (auto simp add: valF_def assms(4))
next
  case False
  with assms(1) have "0 < SqrtPriceX96 event" by simp
  from uniswap_val [OF this assms(2) assms(3)] obtain pr where
    u: "uniswapPrice event pool = Inr pr" and b: "bnd pr (- 500000000) 500000000"
    and n: "\<not> neg pr" and r: "rel (mag pr) F (1 / 2 ^ 94)"
    unfolding assms(4) power2_eq_square by blast
  have "valF pr = mag pr"
    using bnd_fin [OF b] n by (simp add: valF_def fin_def)
  with r have "\<bar>valF pr - F\<bar> \<le> F / 2 ^ 94"
    by (simp add: rel_def)
  with u show ?thesis by blast
qed

theorem uniswap_price_value_witness:
  "\<exists>price. uniswapPrice (swap (2 ^ 96 + 1)) pool1 = Inr price
     \<and> \<bar>valF price - (real_of_int (2 ^ 96 + 1) / 2 ^ 96)\<^sup>2\<bar>
         \<le> (real_of_int (2 ^ 96 + 1) / 2 ^ 96)\<^sup>2 / 2 ^ 94"
proof -
  have 1: "0 \<le> SqrtPriceX96 (swap (2 ^ 96 + 1))" "SqrtPriceX96 (swap (2 ^ 96 + 1)) < 2 ^ 160"
    by (simp_all add: swap_def)
  have 2: "\<bar>sint (Decimals0 pool1) - sint (Decimals1 pool1)\<bar> \<le> 100000000"
    by (simp add: pool1_def)
  have 3: "(real_of_int (2 ^ 96 + 1) / 2 ^ 96)\<^sup>2
      = (real_of_int (SqrtPriceX96 (swap (2 ^ 96 + 1))) / 2 ^ 96)\<^sup>2
               * 10 powi (sint (Decimals0 pool1) - sint (Decimals1 pool1))"
    by (simp add: swap_def pool1_def)
  from uniswap_price_value [OF 1 2 3] show ?thesis .
qed

section \<open>The product of the forward and the reverse price\<close>

lemma one53_val: "bnd one53 0 1" "prec one53 = 53" "\<not> neg one53" "mag one53 = 1"
proof -
  have fl: "floorlog 2 4503599627370496 = 53"
    by (simp add: compute_floorlog)
  show m: "mag one53 = 1"
    unfolding mag_def one53_def mkfinite_def by (simp add: fl)
  show "prec one53 = 53" "\<not> neg one53"
    by (simp_all add: one53_def mkfinite_def)
  have "fin one53"
    by (simp add: fin_def one53_def mkfinite_def)
  then show "bnd one53 0 1"
    by (simp add: bnd_def m)
qed

text \<open>
  C7, counterexample.  With equal decimals the Swap event with sqrtPriceX96 = 11 * 2^96
  decodes to the price 121.  The reverse price is 1 / 121 rounded to 100 bits, and 121
  times it is not 1, neither as a real number nor as the rounded product \<open>Mul\<close> of the two,
  which is \<open>1 - 1 / 2 ^ 100\<close> and compares as smaller than 1.
\<close>

theorem forward_times_reverse_is_not_one:
  "uniswapPrice (swap (11 * 2 ^ 96)) pool1 = Inr price121
   \<and> Quo one53 price121 = Inr reverse121
   \<and> valF price121 = 121
   \<and> valF price121 * valF reverse121 \<noteq> 1
   \<and> Mul price121 reverse121 = Inr product121
   \<and> Cmp product121 one53 = - 1"
proof -
  have 1: "uniswapPrice (swap (11 * 2 ^ 96)) pool1 = Inr price121"
    by (simp add: uniswapPrice_def swap_def price121_def float_eval sample_eval word_sless_alt)
  have 2: "Quo one53 price121 = Inr reverse121"
    by (simp add: one53_def price121_def reverse121_def float_eval)
  have 3: "valF price121 = 121"
    by (simp add: valF_def mag_def price121_def mkfinite_def compute_floorlog)
  have 4: "valF price121 * valF reverse121 \<noteq> 1"
    unfolding 3 by (simp add: valF_def mag_def reverse121_def mkfinite_def compute_floorlog)
  have 5: "Mul price121 reverse121 = Inr product121"
    by (simp add: price121_def reverse121_def product121_def float_eval)
  have 6: "Cmp product121 one53 = - 1"
    by (simp add: Cmp_def ord_def ucmp_def product121_def one53_def mkfinite_def Let_def
        compute_floorlog)
  from 1 2 3 4 5 6 show ?thesis by blast
qed

text \<open>
  C7, amended.  For a sqrtPriceX96 of the event's type, not zero, and decimals that
  differ by at most 10^8: the reverse price stored for the event is \<open>Quo\<close> of 1 and the
  forward price, that is 1 / price rounded to the mantissa of the price (at least 97
  bits), and the product of the forward and the reverse price is 1 up to that rounding:
  it differs from 1 by at most \<open>2 ^ -97\<close>.
\<close>

theorem forward_times_reverse:
  assumes "0 < SqrtPriceX96 event" and "SqrtPriceX96 event < 2 ^ 160"
    and "\<bar>sint (Decimals0 pool) - sint (Decimals1 pool)\<bar> \<le> 100000000"
  shows "\<exists>price rp. uniswapPrice event pool = Inr price \<and> Quo one53 price = Inr rp
           \<and> \<bar>valF price * valF rp - 1\<bar> \<le> 1 / 2 ^ 97
           \<and> (\<forall>lnf clk st st'. updatePriceCache lnf clk pool price ''uniswap'' st = Inr st' \<longrightarrow>
                 Price (last (bucket (priceCache st') (pairKey (Token1 pool) (Token0 pool)))) = rp)"
proof -
  from uniswap_val [OF assms] obtain pr where
    u: "uniswapPrice event pool = Inr pr" and b: "bnd pr (- 500000000) 500000000"
    and p: "97 \<le> prec pr" and n: "\<not> neg pr"
    by blast
  have fp: "fin pr" by (rule bnd_fin [OF b])
  have fo: "fin one53" by (rule bnd_fin [OF one53_val(1)])
  define P where "P = max (prec one53) (prec pr)"
  have P: "97 \<le> P" "0 < P" using p by (simp_all add: P_def)
  define rp where "rp = uquo P False one53 pr"
  have Q: "Quo one53 pr = Inr rp"
    using n one53_val(3) by (simp add: Quo_fin [OF fo fp] rp_def P_def)
  have r: "MinExp \<le> 0 - 500000000 + 1" "1 - (- 500000000) < MaxExp"
    by (simp_all add: MinExp_def MaxExp_def)
  note uq = uquo_val [OF one53_val(1) b P(2) r, of False, folded rp_def]
  have mp: "0 < mag pr" by (rule bnd_pos [OF b])
  have "rel (mag rp) (1 / mag pr) (1 / 2 ^ 97)"
    using uq(4) unfolding one53_val(4) using mp by (intro rel_of_err [OF _ P(1)]) simp_all
  then have e: "\<bar>mag rp - 1 / mag pr\<bar> \<le> 1 / mag pr * (1 / 2 ^ 97)"
    by (simp add: rel_def)
  have "\<bar>mag pr * mag rp - 1\<bar> = mag pr * \<bar>mag rp - 1 / mag pr\<bar>"
  proof -
    have "mag pr * mag rp - 1 = mag pr * (mag rp - 1 / mag pr)"
      using mp by (simp add: right_diff_distrib)
    then have "\<bar>mag pr * mag rp - 1\<bar> = \<bar>mag pr\<bar> * \<bar>mag rp - 1 / mag pr\<bar>"
      by (simp only: abs_mult)
    then show ?thesis
      using mp by simp
  qed
  also have "\<dots> \<le> mag pr * (1 / mag pr * (1 / 2 ^ 97))"
    using e mp by (intro mult_left_mono) simp_all
  also have "\<dots> = 1 / 2 ^ 97"
    using mp by simp
  finally have m: "\<bar>mag pr * mag rp - 1\<bar> \<le> 1 / 2 ^ 97" .
  have v: "valF pr = mag pr" "valF rp = mag rp"
    using fp n bnd_fin [OF uq(1)] uq(3) by (simp_all add: valF_def fin_def)
  have st: "Price (last (bucket (priceCache st') (pairKey (Token1 pool) (Token0 pool)))) = rp"
    if "updatePriceCache lnf clk pool pr ''uniswap'' st = Inr st'" for lnf clk st st'
  proof -
    from that obtain lp rp' where
      q': "Quo one53 pr = Inr rp'" and
      pc: "priceCache st' =
       put (Address pool) (revRec ''uniswap'' pool rp' lp clk) (pairKey (Token1 pool) (Token0 pool))
         (put (Address pool) (fwdRec ''uniswap'' pool pr lp clk) (pairKey (Token0 pool) (Token1 pool))
            (priceCache st))"
      by (rule updatePriceCache_Inr)
    have "rp' = rp" using Q q' by simp
    then show ?thesis
      by (simp add: pc bucket_put revRec_def)
  qed
  from u Q m st show ?thesis
    unfolding v [symmetric] by blast
qed

theorem forward_times_reverse_witness:
  "\<exists>price rp. uniswapPrice (swap (11 * 2 ^ 96)) pool1 = Inr price \<and> Quo one53 price = Inr rp
     \<and> \<bar>valF price * valF rp - 1\<bar> \<le> 1 / 2 ^ 97"
proof -
  have 1: "0 < SqrtPriceX96 (swap (11 * 2 ^ 96))" "SqrtPriceX96 (swap (11 * 2 ^ 96)) < 2 ^ 160"
    by (simp_all add: swap_def)
  have 2: "\<bar>sint (Decimals0 pool1) - sint (Decimals1 pool1)\<bar> \<le> 100000000"
    by (simp add: pool1_def)
  from forward_times_reverse [OF 1 2] show ?thesis by blast
qed

end
